theory Spec2Isabelle
  imports Complex_Main
begin

section \<open>Arrays\<close>

text \<open>
  The source computes on \<open>jax.numpy\<close> arrays. An array is its shape together with its
  elements in row-major order; an element is addressed by a multi-index, one position per
  axis. Index arrays hold integers. A floating-point number is the real number it stands
  for. Where a property is a formula for the result, the operations are the exact ones of
  the reals. Where a property is decided by the rounding of the operations, the function
  has a second form in which every operation rounds its result with a function \<open>rnd\<close>;
  \<open>round_double\<close> is the rounding of IEEE double precision. Where it is decided by
  infinities and NaN, the function has a form over the values \<open>ieee\<close>.
\<close>

record 'a ndarray =
  shape :: "nat list"
  elems :: "'a list"

definition well_shaped :: "'a ndarray \<Rightarrow> bool" where
  "well_shaped A \<longleftrightarrow> length (elems A) = prod_list (shape A)"

definition rank :: "'a ndarray \<Rightarrow> nat" where
  "rank A = length (shape A)"

fun ravel :: "nat list \<Rightarrow> nat list \<Rightarrow> nat" where
  "ravel (d # ds) (i # js) = i * prod_list ds + ravel ds js"
| "ravel _ _ = 0"

fun unravel :: "nat list \<Rightarrow> nat \<Rightarrow> nat list" where
  "unravel [] p = []"
| "unravel (d # ds) p = (p div prod_list ds) # unravel ds (p mod prod_list ds)"

definition in_bounds :: "nat list \<Rightarrow> nat list \<Rightarrow> bool" where
  "in_bounds shp idx \<longleftrightarrow> list_all2 (<) idx shp"

definition item :: "'a ndarray \<Rightarrow> nat list \<Rightarrow> 'a" where
  "item A idx = elems A ! ravel (shape A) idx"

definition tabulate :: "nat list \<Rightarrow> (nat list \<Rightarrow> 'a) \<Rightarrow> 'a ndarray" where
  "tabulate shp f = \<lparr>shape = shp, elems = map (\<lambda>p. f (unravel shp p)) [0..<prod_list shp]\<rparr>"

definition map_nd :: "('a \<Rightarrow> 'b) \<Rightarrow> 'a ndarray \<Rightarrow> 'b ndarray" where
  "map_nd f A = \<lparr>shape = shape A, elems = map f (elems A)\<rparr>"

text \<open>Elementwise combination of two arrays of one shape.\<close>

definition zip_nd :: "('a \<Rightarrow> 'b \<Rightarrow> 'c) \<Rightarrow> 'a ndarray \<Rightarrow> 'b ndarray \<Rightarrow> 'c ndarray" where
  "zip_nd f A B = \<lparr>shape = shape A, elems = map2 f (elems A) (elems B)\<rparr>"

text \<open>
  What the source raises: the \<open>ValueError\<close> of the distance functions, with its message,
  and the rejection of operand shapes by the array library (a failed unpacking of
  \<open>.shape\<close>, a \<open>reshape\<close> to another size, operands that do not broadcast).
\<close>

datatype error = ValueError string | ShapeError

definition bind_err :: "error + 'a \<Rightarrow> ('a \<Rightarrow> error + 'b) \<Rightarrow> error + 'b" where
  "bind_err m f = (case m of Inl e \<Rightarrow> Inl e | Inr x \<Rightarrow> f x)"

text \<open>\<open>A.reshape(shp)\<close>: the elements stay in row-major order, the sizes must agree.\<close>

definition reshape :: "'a ndarray \<Rightarrow> nat list \<Rightarrow> error + 'a ndarray" where
  "reshape A shp =
     (if prod_list shp = prod_list (shape A) then Inr (A\<lparr>shape := shp\<rparr>) else Inl ShapeError)"

text \<open>\<open>jnp.expand_dims(A, axis)\<close>, also written \<open>A[:, None, :]\<close>: a new axis of size 1.\<close>

definition expand_dims :: "'a ndarray \<Rightarrow> nat \<Rightarrow> 'a ndarray" where
  "expand_dims A axis = A\<lparr>shape := take axis (shape A) @ [1] @ drop axis (shape A)\<rparr>"

text \<open>
  Broadcasting of a binary operator: shapes are aligned at their last axis, the shorter
  one is padded with 1 on the left, and an axis of size 1 is repeated along the other
  operand's axis. Axes of different sizes, neither of them 1, are rejected.
\<close>

definition pad_shape :: "nat \<Rightarrow> nat list \<Rightarrow> nat list" where
  "pad_shape r shp = replicate (r - length shp) 1 @ shp"

definition broadcastable :: "nat list \<Rightarrow> nat list \<Rightarrow> bool" where
  "broadcastable s t \<longleftrightarrow>
     (let r = max (length s) (length t)
      in list_all2 (\<lambda>a b. a = b \<or> a = 1 \<or> b = 1) (pad_shape r s) (pad_shape r t))"

definition broadcast_shape :: "nat list \<Rightarrow> nat list \<Rightarrow> nat list" where
  "broadcast_shape s t =
     (let r = max (length s) (length t)
      in map2 (\<lambda>a b. if a = 1 then b else a) (pad_shape r s) (pad_shape r t))"

definition bcast_index :: "nat list \<Rightarrow> nat list \<Rightarrow> nat list" where
  "bcast_index shp idx =
     map2 (\<lambda>d i. if d = 1 then 0 else i) shp (drop (length idx - length shp) idx)"

definition broadcast2 ::
  "('a \<Rightarrow> 'b \<Rightarrow> 'c) \<Rightarrow> 'a ndarray \<Rightarrow> 'b ndarray \<Rightarrow> error + 'c ndarray" where
  "broadcast2 f A B =
     (if broadcastable (shape A) (shape B)
      then Inr (tabulate (broadcast_shape (shape A) (shape B))
             (\<lambda>idx. f (item A (bcast_index (shape A) idx)) (item B (bcast_index (shape B) idx))))
      else Inl ShapeError)"

text \<open>\<open>jnp.sum(A, axis=-1)\<close>; on a matrix this is also \<open>jnp.sum(A, axis=1)\<close>.\<close>

definition sum_last :: "real ndarray \<Rightarrow> real ndarray" where
  "sum_last A =
     tabulate (butlast (shape A)) (\<lambda>idx. \<Sum>k<last (shape A). item A (idx @ [k]))"

text \<open>
  \<open>data[ind]\<close> for an integer array \<open>ind\<close>: every index selects a slice of the first
  axis of \<open>data\<close>. As in \<open>jax.numpy\<close>, a negative index counts from the end, and an
  index that is still out of range is clamped to the nearest valid one.
\<close>

definition clip_index :: "nat \<Rightarrow> int \<Rightarrow> nat" where
  "clip_index n i = nat (max 0 (min (int n - 1) (if i < 0 then i + int n else i)))"

definition take_rows :: "'a ndarray \<Rightarrow> int ndarray \<Rightarrow> 'a ndarray" where
  "take_rows data ind =
     tabulate (shape ind @ tl (shape data))
       (\<lambda>idx. item data (clip_index (hd (shape data)) (item ind (take (rank ind) idx))
                          # drop (rank ind) idx))"

text \<open>\<open>jnp.arange(0, n)\<close>.\<close>

definition arange :: "nat \<Rightarrow> int ndarray" where
  "arange n = \<lparr>shape = [n], elems = map int [0..<n]\<rparr>"

text \<open>\<open>A[:, :-1]\<close> on a matrix: every row without its last entry.\<close>

definition drop_last_column :: "'a ndarray \<Rightarrow> error + 'a ndarray" where
  "drop_last_column A =
     (case shape A of
        [m, n] \<Rightarrow> Inr (tabulate [m, n - 1] (\<lambda>idx. item A idx))
      | _ \<Rightarrow> Inl ShapeError)"

text \<open>\<open>jnp.concatenate((A, B), axis=1)\<close> on two matrices: the row counts must agree.\<close>

definition concatenate_axis1 :: "'a ndarray \<Rightarrow> 'a ndarray \<Rightarrow> error + 'a ndarray" where
  "concatenate_axis1 A B =
     (case (shape A, shape B) of
        ([m, n], [m', n']) \<Rightarrow>
          if m = m'
          then Inr (tabulate [m, n + n']
                 (\<lambda>idx. if idx ! 1 < n then item A idx else item B [idx ! 0, idx ! 1 - n]))
          else Inl ShapeError
      | _ \<Rightarrow> Inl ShapeError)"

text \<open>
  \<open>A @ B\<close> on two stacks of matrices: the matrix product of every pair, a stack of one
  matrix being repeated along the other stack.
\<close>

definition matmul :: "real ndarray \<Rightarrow> real ndarray \<Rightarrow> error + real ndarray" where
  "matmul A B =
     (case (shape A, shape B) of
        ([a, m, n], [b, n', r]) \<Rightarrow>
          if n = n' \<and> (a = b \<or> a = 1 \<or> b = 1)
          then Inr (tabulate [if a = 1 then b else a, m, r]
                 (\<lambda>idx. \<Sum>j<n. item A [if a = 1 then 0 else idx ! 0, idx ! 1, j]
                              * item B [if b = 1 then 0 else idx ! 0, j, idx ! 2]))
          else Inl ShapeError
      | _ \<Rightarrow> Inl ShapeError)"

text \<open>\<open>jnp.einsum("ij,ijk->ik", A, B)\<close>, for operands whose \<open>i\<close> and \<open>j\<close> axes agree.\<close>

definition einsum_ij_ijk_ik :: "real ndarray \<Rightarrow> real ndarray \<Rightarrow> error + real ndarray" where
  "einsum_ij_ijk_ik A B =
     (case (shape A, shape B) of
        ([i, j], [i', j', k]) \<Rightarrow>
          if i = i' \<and> j = j'
          then Inr (tabulate [i, k]
                 (\<lambda>idx. \<Sum>jj<j. item A [idx ! 0, jj] * item B [idx ! 0, jj, idx ! 1]))
          else Inl ShapeError
      | _ \<Rightarrow> Inl ShapeError)"

text \<open>
  \<open>K.at[:, d, d].set(v)\<close> with \<open>d = jnp.arange(K.shape[1])\<close> on an array of three axes:
  the entries \<open>[b, i, i]\<close> become \<open>v\<close>.
\<close>

definition at_diag_set :: "'a ndarray \<Rightarrow> 'a \<Rightarrow> 'a ndarray" where
  "at_diag_set K v = tabulate (shape K) (\<lambda>idx. if idx ! 1 = idx ! 2 then v else item K idx)"

text \<open>\<open>K.at[:, :].set(v)\<close> and \<open>K.at[:, :, :].set(v)\<close>: every entry becomes \<open>v\<close>.\<close>

definition at_all_set :: "'a ndarray \<Rightarrow> 'a \<Rightarrow> 'a ndarray" where
  "at_all_set K v = map_nd (\<lambda>_. v) K"

section \<open>Floating-point arithmetic\<close>

text \<open>
  Rounding to the nearest double, ties to the even significand: a double has 53
  significant bits, so a number \<open>x\<close> with \<open>2 ^ e \<le> \<bar>x\<bar> < 2 ^ (e + 1)\<close> is rounded to
  the nearest multiple of \<open>2 ^ (e - 52)\<close>. The range of the exponent is not bounded:
  overflow and underflow are left out.
\<close>

definition round_half_even :: "real \<Rightarrow> int" where
  "round_half_even x =
     (let n = \<lfloor>x\<rfloor>; d = x - of_int n
      in if d < 1 / 2 then n else if 1 / 2 < d then n + 1 else if even n then n else n + 1)"

definition round_double :: "real \<Rightarrow> real" where
  "round_double x =
     (if x = 0 then 0
      else let e = \<lfloor>log 2 \<bar>x\<bar>\<rfloor> - 52
           in of_int (round_half_even (x / 2 powr of_int e)) * 2 powr of_int e)"

text \<open>\<open>jnp.sum(A, axis=-1)\<close> with rounded additions, from the first entry to the last.\<close>

definition sum_last_fl :: "(real \<Rightarrow> real) \<Rightarrow> real ndarray \<Rightarrow> real ndarray" where
  "sum_last_fl rnd A =
     tabulate (butlast (shape A))
       (\<lambda>idx. foldl (\<lambda>acc k. rnd (acc + item A (idx @ [k]))) 0 [0..<last (shape A)])"

text \<open>
  The special values of IEEE arithmetic: a finite number, the two infinities, and NaN.
  The operations follow the standard on them; finite results are not rounded, and the
  sign of a zero is not kept (a zero divisor counts as positive).
\<close>

datatype ieee = Fin real | PInf | MInf | NaN

fun ieee_mul :: "ieee \<Rightarrow> ieee \<Rightarrow> ieee" where
  "ieee_mul NaN _ = NaN"
| "ieee_mul _ NaN = NaN"
| "ieee_mul (Fin x) (Fin y) = Fin (x * y)"
| "ieee_mul (Fin x) PInf = (if x = 0 then NaN else if 0 < x then PInf else MInf)"
| "ieee_mul (Fin x) MInf = (if x = 0 then NaN else if 0 < x then MInf else PInf)"
| "ieee_mul PInf (Fin y) = (if y = 0 then NaN else if 0 < y then PInf else MInf)"
| "ieee_mul MInf (Fin y) = (if y = 0 then NaN else if 0 < y then MInf else PInf)"
| "ieee_mul PInf PInf = PInf"
| "ieee_mul PInf MInf = MInf"
| "ieee_mul MInf PInf = MInf"
| "ieee_mul MInf MInf = PInf"

fun ieee_div :: "ieee \<Rightarrow> ieee \<Rightarrow> ieee" where
  "ieee_div NaN _ = NaN"
| "ieee_div _ NaN = NaN"
| "ieee_div (Fin x) (Fin y) =
     (if y = 0 then (if x = 0 then NaN else if 0 < x then PInf else MInf) else Fin (x / y))"
| "ieee_div (Fin x) _ = Fin 0"
| "ieee_div PInf (Fin y) = (if 0 \<le> y then PInf else MInf)"
| "ieee_div MInf (Fin y) = (if 0 \<le> y then MInf else PInf)"
| "ieee_div _ _ = NaN"

fun ieee_exp :: "ieee \<Rightarrow> ieee" where
  "ieee_exp (Fin x) = Fin (exp x)"
| "ieee_exp PInf = PInf"
| "ieee_exp MInf = Fin 0"
| "ieee_exp NaN = NaN"

fun ieee_abs :: "ieee \<Rightarrow> ieee" where
  "ieee_abs (Fin x) = Fin \<bar>x\<bar>"
| "ieee_abs PInf = PInf"
| "ieee_abs MInf = PInf"
| "ieee_abs NaN = NaN"

fun ieee_pow :: "ieee \<Rightarrow> real \<Rightarrow> ieee" where
  "ieee_pow x nu =
     (if nu = 0 then Fin 1
      else case x of
        NaN \<Rightarrow> NaN
      | Fin v \<Rightarrow>
          if 0 < v then Fin (v powr nu)
          else if v = 0 then (if 0 < nu then Fin 0 else PInf)
          else if of_int \<lfloor>nu\<rfloor> = nu then Fin ((if even \<lfloor>nu\<rfloor> then 1 else - 1) * \<bar>v\<bar> powr nu)
          else NaN
      | PInf \<Rightarrow> if 0 < nu then PInf else Fin 0
      | MInf \<Rightarrow> if 0 < nu then (if of_int \<lfloor>nu\<rfloor> = nu \<and> odd \<lfloor>nu\<rfloor> then MInf else PInf) else Fin 0)"

section \<open>Kernel functions (\<open>_src/gp/kernels/jax.py\<close>)\<close>

definition rbf_fn :: "real ndarray \<Rightarrow> real ndarray" where
  "rbf_fn squared_dists = map_nd exp (map_nd (\<lambda>x. x / 2) (map_nd uminus squared_dists))"

text \<open>
  The general Mat\'ern kernel. The scaled Bessel function \<open>tfp.math.bessel_kve\<close> and
  \<open>jax.scipy.special.gammaln\<close> are library functions: they are parameters here. The
  power \<open>x ** nu\<close> of a real exponent is \<open>powr\<close>. The array \<open>tmp\<close> of the source is
  what the Bessel function is evaluated at.
\<close>

definition matern_gen_tmp :: "real ndarray \<Rightarrow> real \<Rightarrow> real ndarray" where
  "matern_gen_tmp dists nu =
     (let K = dists;
          K = (if rank K = 3 then at_diag_set K 1 else K)
      in map_nd (\<lambda>x. sqrt (2 * nu) * x) K)"

definition matern_gen_fn ::
  "(real \<Rightarrow> real \<Rightarrow> real) \<Rightarrow> (real \<Rightarrow> real) \<Rightarrow> real ndarray \<Rightarrow> real \<Rightarrow> real ndarray" where
  "matern_gen_fn bessel_kve gammaln dists nu =
     (let K = dists;
          K = (if rank K = 3 then at_diag_set K 1 else K);
          tmp = map_nd (\<lambda>x. sqrt (2 * nu) * x) K;
          const_val = 2 powr (1 - nu) / exp (gammaln nu);
          K = (if rank K = 2 then at_all_set K const_val
               else if rank K = 3 then at_all_set K const_val
               else K);
          K = zip_nd (*) K (map_nd (\<lambda>t. t powr nu) tmp);
          K = zip_nd (*) K
                (zip_nd (/) (map_nd (bessel_kve nu) tmp) (map_nd exp (map_nd abs tmp)));
          K = (if rank K = 3 then at_diag_set K 1 else K)
      in K)"

text \<open>
  The same function over IEEE values, for the entries at which the Bessel function or
  a product is not finite; the form over the reals above is for finite values. The
  Bessel function and \<open>gammaln\<close> may return an infinity or NaN; \<open>x ** nu\<close> is the \<open>pow\<close>
  of the standard.
\<close>

definition matern_gen_fn_ieee ::
  "(real \<Rightarrow> ieee \<Rightarrow> ieee) \<Rightarrow> (real \<Rightarrow> ieee) \<Rightarrow> ieee ndarray \<Rightarrow> real \<Rightarrow> ieee ndarray" where
  "matern_gen_fn_ieee bessel_kve gammaln dists nu =
     (let K = dists;
          K = (if rank K = 3 then at_diag_set K (Fin 1) else K);
          tmp = map_nd (\<lambda>x. ieee_mul (Fin (sqrt (2 * nu))) x) K;
          const_val = ieee_div (Fin (2 powr (1 - nu))) (ieee_exp (gammaln nu));
          K = (if rank K = 2 then at_all_set K const_val
               else if rank K = 3 then at_all_set K const_val
               else K);
          K = zip_nd ieee_mul K (map_nd (\<lambda>t. ieee_pow t nu) tmp);
          K = zip_nd ieee_mul K
                (zip_nd ieee_div (map_nd (bessel_kve nu) tmp) (map_nd ieee_exp (map_nd ieee_abs tmp)));
          K = (if rank K = 3 then at_diag_set K (Fin 1) else K)
      in K)"

section \<open>Distance tensors (\<open>_src/gp/distance/jax.py\<close>)\<close>

definition F2 :: "real ndarray \<Rightarrow> real ndarray" where
  "F2 diffs' = sum_last (map_nd (\<lambda>x. x\<^sup>2) diffs')"

definition l2 :: "real ndarray \<Rightarrow> real ndarray" where
  "l2 diffs' = map_nd sqrt (F2 diffs')"

text \<open>
  \<open>points[:, :, None, :] - points[:, None, :, :]\<close>; the indexing needs three axes at
  least.
\<close>

definition diffs_fn :: "real ndarray \<Rightarrow> error + real ndarray" where
  "diffs_fn points =
     (if rank points < 3 then Inl ShapeError
      else broadcast2 (-) (expand_dims points 2) (expand_dims points 1))"

text \<open>\<open>locations[:, None, :] - points\<close>; the indexing needs two axes at least.\<close>

definition crosswise_diffs :: "real ndarray \<Rightarrow> real ndarray \<Rightarrow> error + real ndarray" where
  "crosswise_diffs locations points =
     (if rank locations < 2 then Inl ShapeError
      else broadcast2 (-) (expand_dims locations 1) points)"

definition pairwise_distances ::
  "real ndarray \<Rightarrow> int ndarray \<Rightarrow> string \<Rightarrow> error + real ndarray" where
  "pairwise_distances data nn_indices metric =
     (let points = take_rows data nn_indices
      in if metric = ''l2'' then bind_err (diffs_fn points) (\<lambda>diffs'. Inr (l2 diffs'))
         else if metric = ''F2'' then bind_err (diffs_fn points) (\<lambda>diffs'. Inr (F2 diffs'))
         else Inl (ValueError (''Metric '' @ metric @ '' is not supported!'')))"

definition crosswise_distances ::
  "real ndarray \<Rightarrow> real ndarray \<Rightarrow> int ndarray \<Rightarrow> int ndarray \<Rightarrow> string
     \<Rightarrow> error + real ndarray" where
  "crosswise_distances data nn_data data_indices nn_indices metric =
     (let locations = take_rows data data_indices;
          points = take_rows nn_data nn_indices
      in if metric = ''l2''
         then bind_err (crosswise_diffs locations points) (\<lambda>diffs'. Inr (l2 diffs'))
         else if metric = ''F2''
         then bind_err (crosswise_diffs locations points) (\<lambda>diffs'. Inr (F2 diffs'))
         else Inl (ValueError (''Metric '' @ metric @ '' is not supported!'')))"

text \<open>
  The pairwise distances with every operation rounded by \<open>rnd\<close>: the subtraction, the
  square \<open>diffs ** 2\<close> (one multiplication), the additions of the sum and the square root.
\<close>

definition F2_fl :: "(real \<Rightarrow> real) \<Rightarrow> real ndarray \<Rightarrow> real ndarray" where
  "F2_fl rnd diffs' = sum_last_fl rnd (map_nd (\<lambda>x. rnd (x * x)) diffs')"

definition l2_fl :: "(real \<Rightarrow> real) \<Rightarrow> real ndarray \<Rightarrow> real ndarray" where
  "l2_fl rnd diffs' = map_nd (\<lambda>x. rnd (sqrt x)) (F2_fl rnd diffs')"

definition diffs_fn_fl :: "(real \<Rightarrow> real) \<Rightarrow> real ndarray \<Rightarrow> error + real ndarray" where
  "diffs_fn_fl rnd points =
     (if rank points < 3 then Inl ShapeError
      else broadcast2 (\<lambda>x y. rnd (x - y)) (expand_dims points 2) (expand_dims points 1))"

definition pairwise_distances_fl ::
  "(real \<Rightarrow> real) \<Rightarrow> real ndarray \<Rightarrow> int ndarray \<Rightarrow> string \<Rightarrow> error + real ndarray" where
  "pairwise_distances_fl rnd data nn_indices metric =
     (let points = take_rows data nn_indices
      in if metric = ''l2''
         then bind_err (diffs_fn_fl rnd points) (\<lambda>diffs'. Inr (l2_fl rnd diffs'))
         else if metric = ''F2''
         then bind_err (diffs_fn_fl rnd points) (\<lambda>diffs'. Inr (F2_fl rnd diffs'))
         else Inl (ValueError (''Metric '' @ metric @ '' is not supported!'')))"

definition fast_nn_update :: "int ndarray \<Rightarrow> error + int ndarray" where
  "fast_nn_update nn_indices =
     (case shape nn_indices of
        [train_count, _] \<Rightarrow>
          bind_err (drop_last_column nn_indices) (\<lambda>nearest.
            concatenate_axis1 (expand_dims (arange train_count) 1) nearest)
      | _ \<Rightarrow> Inl ShapeError)"

definition make_fast_regress_tensors ::
  "string \<Rightarrow> int ndarray \<Rightarrow> real ndarray \<Rightarrow> real ndarray
     \<Rightarrow> error + (real ndarray \<times> real ndarray)" where
  "make_fast_regress_tensors metric batch_nn_indices train_features train_targets =
     (case shape train_features of
        [num_train, _] \<Rightarrow>
          bind_err (drop_last_column batch_nn_indices) (\<lambda>nearest.
          bind_err (concatenate_axis1 (expand_dims (arange num_train) 1) nearest)
            (\<lambda>batch_nn_indices_fast.
          bind_err (pairwise_distances train_features batch_nn_indices_fast metric)
            (\<lambda>pairwise_dists_fast.
          let batch_nn_targets_fast = take_rows train_targets batch_nn_indices_fast
          in Inr (pairwise_dists_fast, batch_nn_targets_fast))))
      | _ \<Rightarrow> Inl ShapeError)"

section \<open>The local solves (\<open>_src/gp/muygps/jax.py\<close>)\<close>

text \<open>
  \<open>jnp.linalg.solve\<close> is a library function: it is the parameter \<open>solve\<close>. Its
  contract is that the array it returns has the shape of the right-hand side and solves
  every system of the stack.
\<close>

type_synonym solver = "real ndarray \<Rightarrow> real ndarray \<Rightarrow> error + real ndarray"

definition solves :: "real ndarray \<Rightarrow> real ndarray \<Rightarrow> real ndarray \<Rightarrow> bool" where
  "solves K X B \<longleftrightarrow>
     shape X = shape B \<and> well_shaped X \<and>
     (case shape B of
        [b, n, r] \<Rightarrow>
          \<forall>bi<b. \<forall>i<n. \<forall>k<r. (\<Sum>j<n. item K [bi, i, j] * item X [bi, j, k]) = item B [bi, i, k]
      | _ \<Rightarrow> False)"

definition muygps_compute_solve ::
  "solver \<Rightarrow> real ndarray \<Rightarrow> real ndarray \<Rightarrow> real ndarray \<Rightarrow> error + real ndarray" where
  "muygps_compute_solve solve K Kcross batch_nn_targets =
     (case shape batch_nn_targets of
        [batch_count, nn_count, response_count] \<Rightarrow>
          bind_err (reshape Kcross [batch_count, 1, nn_count]) (\<lambda>Kcross3.
          bind_err (solve K batch_nn_targets) (\<lambda>X.
          bind_err (matmul Kcross3 X) (\<lambda>responses.
          reshape responses [batch_count, response_count])))
      | _ \<Rightarrow> Inl ShapeError)"

text \<open>
  The variance with every operation rounded by \<open>rnd\<close>: the products, the additions of
  the sum and the subtraction from 1. With the identity for \<open>rnd\<close> the arithmetic is
  exact.
\<close>

definition muygps_compute_diagonal_variance ::
  "(real \<Rightarrow> real) \<Rightarrow> solver \<Rightarrow> real ndarray \<Rightarrow> real ndarray \<Rightarrow> error + real ndarray" where
  "muygps_compute_diagonal_variance rnd solve K Kcross =
     (case shape Kcross of
        [batch_count, nn_count] \<Rightarrow>
          bind_err (reshape Kcross [batch_count, nn_count, 1]) (\<lambda>rhs.
          bind_err (solve K rhs) (\<lambda>X.
          bind_err (reshape X [batch_count, nn_count]) (\<lambda>X2.
          bind_err (broadcast2 (\<lambda>x y. rnd (x * y)) Kcross X2) (\<lambda>prods.
          Inr (map_nd (\<lambda>s. rnd (1 - s)) (sum_last_fl rnd prods))))))
      | _ \<Rightarrow> Inl ShapeError)"

definition muygps_fast_regress_solve ::
  "real ndarray \<Rightarrow> real ndarray \<Rightarrow> error + real ndarray" where
  "muygps_fast_regress_solve Kcross coeffs_tensor = einsum_ij_ijk_ik Kcross coeffs_tensor"

definition muygps_fast_regress_precompute ::
  "solver \<Rightarrow> real ndarray \<Rightarrow> real ndarray \<Rightarrow> error + real ndarray" where
  "muygps_fast_regress_precompute solve K train_nn_targets_fast = solve K train_nn_targets_fast"

section \<open>Notions the properties are stated with\<close>

text \<open>Row \<open>t\<close> of a matrix, entry by entry.\<close>

definition row_of :: "'a ndarray \<Rightarrow> nat \<Rightarrow> 'a list" where
  "row_of A t = map (\<lambda>j. item A [t, j]) [0..<shape A ! 1]"

text \<open>
  \<open>Kinv[b]\<close> is an inverse of the matrix \<open>K[b]\<close> of size \<open>n\<close>: a non-singular
  \<open>K[b]\<close> has one, written \<open>K[b]\<^sup>-\<^sup>1\<close>.
\<close>

definition inverse_of :: "real ndarray \<Rightarrow> real ndarray \<Rightarrow> nat \<Rightarrow> nat \<Rightarrow> bool" where
  "inverse_of Kinv K n b \<longleftrightarrow>
     (\<forall>i<n. \<forall>l<n. (\<Sum>j<n. item Kinv [b, i, j] * item K [b, j, l]) = (if i = l then 1 else 0))"

text \<open>The solver has solved the system of batch element \<open>b\<close>: \<open>K[b] \<cdot> X[b] = rhs[b]\<close>.\<close>

definition solved_at :: "real ndarray \<Rightarrow> real ndarray \<Rightarrow> real ndarray \<Rightarrow> nat \<Rightarrow> nat \<Rightarrow> bool" where
  "solved_at K X rhs n b \<longleftrightarrow>
     (\<forall>i<n. (\<Sum>j<n. item K [b, i, j] * item X [b, j, 0]) = item rhs [b, i, 0])"

text \<open>
  The joint correlation matrix of batch element \<open>b\<close>: the query point, with prior
  variance 1, at position 0, its neighbours after it, \<open>Kcross[b]\<close> between them and
  \<open>K[b]\<close> among the neighbours. A matrix is positive semi-definite when its quadratic
  form is never negative.
\<close>

definition joint_corr :: "real ndarray \<Rightarrow> real ndarray \<Rightarrow> nat \<Rightarrow> nat \<Rightarrow> nat \<Rightarrow> real" where
  "joint_corr K Kcross b i j =
     (if i = 0 \<and> j = 0 then 1
      else if i = 0 then item Kcross [b, j - 1]
      else if j = 0 then item Kcross [b, i - 1]
      else item K [b, i - 1, j - 1])"

definition psd :: "nat \<Rightarrow> (nat \<Rightarrow> nat \<Rightarrow> real) \<Rightarrow> bool" where
  "psd n M \<longleftrightarrow> (\<forall>x. 0 \<le> (\<Sum>i<n. \<Sum>j<n. x i * M i j * x j))"

section \<open>Facts about arrays\<close>

lemma in_bounds_Nil [simp]: "in_bounds [] idx \<longleftrightarrow> idx = []"
  by (simp add: in_bounds_def)

lemma in_bounds_Cons [simp]:
  "in_bounds (d # ds) idx \<longleftrightarrow> (\<exists>i js. idx = i # js \<and> i < d \<and> in_bounds ds js)"
  by (cases idx) (simp_all add: in_bounds_def)

lemma in_bounds_length: "in_bounds shp idx \<Longrightarrow> length idx = length shp"
  by (simp add: in_bounds_def list_all2_lengthD)

lemma ravel_less: "in_bounds shp idx \<Longrightarrow> ravel shp idx < prod_list shp"
proof (induction shp idx rule: ravel.induct)
  case (1 d ds i js)
  then have i: "i < d" and r: "ravel ds js < prod_list ds" by auto
  have "i * prod_list ds + ravel ds js < i * prod_list ds + prod_list ds"
    using r by simp
  also have "\<dots> = Suc i * prod_list ds" by simp
  also have "\<dots> \<le> d * prod_list ds"
    using i by (intro mult_le_mono1) simp
  finally show ?case by simp
qed (auto simp: in_bounds_def)

lemma unravel_ravel: "in_bounds shp idx \<Longrightarrow> unravel shp (ravel shp idx) = idx"
proof (induction shp idx rule: ravel.induct)
  case (1 d ds i js)
  then have r: "ravel ds js < prod_list ds" by (auto intro: ravel_less)
  with 1 show ?case by auto
qed (auto simp: in_bounds_def)

lemma in_bounds_unravel: "p < prod_list shp \<Longrightarrow> in_bounds shp (unravel shp p)"
proof (induction shp arbitrary: p)
  case (Cons d ds)
  then have pos: "0 < prod_list ds" by (cases "prod_list ds") auto
  have "p div prod_list ds < d"
    using Cons.prems pos by (simp add: less_mult_imp_div_less)
  with Cons.IH [of "p mod prod_list ds"] pos show ?case by simp
qed simp

lemma ravel_unravel: "p < prod_list shp \<Longrightarrow> ravel shp (unravel shp p) = p"
proof (induction shp arbitrary: p)
  case (Cons d ds)
  then have "0 < prod_list ds" by (cases "prod_list ds") auto
  then have "ravel ds (unravel ds (p mod prod_list ds)) = p mod prod_list ds"
    by (intro Cons.IH) simp
  then show ?case by simp
qed simp

lemma item_tabulate [simp]: "in_bounds shp idx \<Longrightarrow> item (tabulate shp f) idx = f idx"
  by (simp add: item_def tabulate_def ravel_less unravel_ravel)

lemma shape_tabulate [simp]: "shape (tabulate shp f) = shp"
  by (simp add: tabulate_def)

lemma well_shaped_tabulate [simp]: "well_shaped (tabulate shp f)"
  by (simp add: well_shaped_def tabulate_def)

lemma ndarray_eqI:
  assumes "well_shaped A" "well_shaped B" "shape A = shape B"
    and "\<And>idx. in_bounds (shape A) idx \<Longrightarrow> item A idx = item B idx"
  shows "A = B"
proof -
  have "elems A = elems B"
  proof (rule nth_equalityI)
    show "length (elems A) = length (elems B)"
      using assms(1-3) by (simp add: well_shaped_def)
  next
    fix p assume "p < length (elems A)"
    then have p: "p < prod_list (shape A)"
      using assms(1) by (simp add: well_shaped_def)
    from assms(4) [OF in_bounds_unravel [OF p]] show "elems A ! p = elems B ! p"
      using assms(3) p by (simp add: item_def ravel_unravel)
  qed
  with assms(3) show ?thesis by simp
qed

lemma shape_map_nd [simp]: "shape (map_nd f A) = shape A"
  by (simp add: map_nd_def)

lemma well_shaped_map_nd [simp]: "well_shaped (map_nd f A) \<longleftrightarrow> well_shaped A"
  by (simp add: map_nd_def well_shaped_def)

lemma item_map_nd [simp]:
  "well_shaped A \<Longrightarrow> in_bounds (shape A) idx \<Longrightarrow> item (map_nd f A) idx = f (item A idx)"
  using ravel_less [of "shape A" idx] by (simp add: map_nd_def item_def well_shaped_def)

lemma shape_zip_nd [simp]: "shape (zip_nd f A B) = shape A"
  by (simp add: zip_nd_def)

lemma well_shaped_zip_nd [simp]:
  "well_shaped A \<Longrightarrow> well_shaped B \<Longrightarrow> shape B = shape A \<Longrightarrow> well_shaped (zip_nd f A B)"
  by (simp add: zip_nd_def well_shaped_def)

lemma item_zip_nd [simp]:
  "well_shaped A \<Longrightarrow> well_shaped B \<Longrightarrow> shape B = shape A \<Longrightarrow> in_bounds (shape A) idx
     \<Longrightarrow> item (zip_nd f A B) idx = f (item A idx) (item B idx)"
  using ravel_less [of "shape A" idx] by (simp add: zip_nd_def item_def well_shaped_def)

lemma shape_at_diag_set [simp]: "shape (at_diag_set K v) = shape K"
  by (simp add: at_diag_set_def)

lemma well_shaped_at_diag_set [simp]: "well_shaped (at_diag_set K v)"
  by (simp add: at_diag_set_def)

lemma item_at_diag_set [simp]:
  "in_bounds (shape K) idx
     \<Longrightarrow> item (at_diag_set K v) idx = (if idx ! 1 = idx ! 2 then v else item K idx)"
  by (simp add: at_diag_set_def)

lemma shape_at_all_set [simp]: "shape (at_all_set K v) = shape K"
  by (simp add: at_all_set_def)

lemma well_shaped_at_all_set [simp]: "well_shaped (at_all_set K v) \<longleftrightarrow> well_shaped K"
  by (simp add: at_all_set_def)

lemma item_at_all_set [simp]:
  "well_shaped K \<Longrightarrow> in_bounds (shape K) idx \<Longrightarrow> item (at_all_set K v) idx = v"
  by (simp add: at_all_set_def)

lemma tabulate_cong:
  assumes "\<And>idx. in_bounds shp idx \<Longrightarrow> f idx = g idx"
  shows "tabulate shp f = tabulate shp g"
  using assms by (simp add: tabulate_def in_bounds_unravel)

lemma map_nd_tabulate: "map_nd f (tabulate shp g) = tabulate shp (\<lambda>idx. f (g idx))"
  by (simp add: map_nd_def tabulate_def)

lemma bcast_keep: "i < d \<Longrightarrow> (if d = Suc 0 then 0 else i) = i"
  by simp

lemma item_expand_dims_2:
  "shape P = [b, n, f] \<Longrightarrow> item (expand_dims P 2) [i0, i1, 0, i3] = item P [i0, i1, i3]"
  by (simp add: item_def expand_dims_def)

lemma item_expand_dims_1:
  "shape P = [b, n, f] \<Longrightarrow> item (expand_dims P (Suc 0)) [i0, 0, i2, i3] = item P [i0, i2, i3]"
  by (simp add: item_def expand_dims_def)

lemma diffs_fn_rank3:
  assumes "shape points = [b, n, f]"
  shows "diffs_fn points = Inr (tabulate [b, n, n, f]
           (\<lambda>idx. item points [idx ! 0, idx ! 1, idx ! 3] - item points [idx ! 0, idx ! 2, idx ! 3]))"
proof -
  have s2: "shape (expand_dims points 2) = [b, n, Suc 0, f]"
    and s1: "shape (expand_dims points (Suc 0)) = [b, Suc 0, n, f]"
    using assms by (simp_all add: expand_dims_def)
  have bc: "broadcastable [b, n, Suc 0, f] [b, Suc 0, n, f]"
    by (simp add: broadcastable_def pad_shape_def)
  have bs: "broadcast_shape [b, n, Suc 0, f] [b, Suc 0, n, f] = [b, n, n, f]"
    by (simp add: broadcast_shape_def pad_shape_def)
  have "tabulate [b, n, n, f]
          (\<lambda>idx. item (expand_dims points 2) (bcast_index [b, n, 1, f] idx)
                - item (expand_dims points 1) (bcast_index [b, 1, n, f] idx))
        = tabulate [b, n, n, f]
          (\<lambda>idx. item points [idx ! 0, idx ! 1, idx ! 3] - item points [idx ! 0, idx ! 2, idx ! 3])"
  proof (rule tabulate_cong)
    fix idx assume "in_bounds [b, n, n, f] idx"
    then obtain i0 i1 i2 i3 where idx: "idx = [i0, i1, i2, i3]"
      and lt: "i0 < b" "i1 < n" "i2 < n" "i3 < f"
      by auto
    show "item (expand_dims points 2) (bcast_index [b, n, 1, f] idx)
                - item (expand_dims points 1) (bcast_index [b, 1, n, f] idx)
          = item points [idx ! 0, idx ! 1, idx ! 3] - item points [idx ! 0, idx ! 2, idx ! 3]"
      using lt assms
      by (simp add: idx bcast_index_def bcast_keep item_expand_dims_2 item_expand_dims_1)
  qed
  then show ?thesis
    using assms by (simp add: diffs_fn_def rank_def broadcast2_def s1 s2 bc bs)
qed


lemma in_bounds_snoc: "in_bounds shp idx \<Longrightarrow> k < m \<Longrightarrow> in_bounds (shp @ [m]) (idx @ [k])"
  by (simp add: in_bounds_def list_all2_appendI)

lemma sum_last_tabulate:
  "sum_last (tabulate (shp @ [m]) g) = tabulate shp (\<lambda>idx. \<Sum>k<m. g (idx @ [k]))"
proof -
  have "tabulate shp (\<lambda>idx. \<Sum>k<m. item (tabulate (shp @ [m]) g) (idx @ [k]))
        = tabulate shp (\<lambda>idx. \<Sum>k<m. g (idx @ [k]))"
    by (rule tabulate_cong) (simp add: in_bounds_snoc)
  then show ?thesis by (simp add: sum_last_def)
qed

lemma shape_take_rows [simp]: "shape (take_rows data ind) = shape ind @ tl (shape data)"
  by (simp add: take_rows_def)

lemma F2_tabulate4:
  "F2 (tabulate [b, n, n, f] (\<lambda>idx. g (idx ! 0) (idx ! 1) (idx ! 2) (idx ! 3)))
   = tabulate [b, n, n] (\<lambda>idx. \<Sum>k<f. (g (idx ! 0) (idx ! 1) (idx ! 2) k)\<^sup>2)"
proof -
  have "tabulate [b, n, n]
          (\<lambda>idx. \<Sum>k<f. (g ((idx @ [k]) ! 0) ((idx @ [k]) ! 1) ((idx @ [k]) ! 2) ((idx @ [k]) ! 3))\<^sup>2)
        = tabulate [b, n, n] (\<lambda>idx. \<Sum>k<f. (g (idx ! 0) (idx ! 1) (idx ! 2) k)\<^sup>2)"
    by (rule tabulate_cong) auto
  with sum_last_tabulate [of "[b, n, n]" f] show ?thesis
    by (simp add: F2_def map_nd_tabulate)
qed

lemma F2_diffs:
  assumes "shape points = [b, n, f]"
  shows "bind_err (diffs_fn points) (\<lambda>d. Inr (F2 d))
         = Inr (tabulate [b, n, n]
             (\<lambda>idx. \<Sum>k<f. (item points [idx ! 0, idx ! 1, k] - item points [idx ! 0, idx ! 2, k])\<^sup>2))"
  using F2_tabulate4 [of b n f "\<lambda>i0 i1 i2 i3. item points [i0, i1, i3] - item points [i0, i2, i3]"]
  by (simp add: diffs_fn_rank3 [OF assms] bind_err_def)

lemma l2_diffs:
  assumes "shape points = [b, n, f]"
  shows "bind_err (diffs_fn points) (\<lambda>d. Inr (l2 d))
         = Inr (tabulate [b, n, n]
             (\<lambda>idx. sqrt (\<Sum>k<f. (item points [idx ! 0, idx ! 1, k] - item points [idx ! 0, idx ! 2, k])\<^sup>2)))"
  using F2_tabulate4 [of b n f "\<lambda>i0 i1 i2 i3. item points [i0, i1, i3] - item points [i0, i2, i3]"]
  by (simp add: diffs_fn_rank3 [OF assms] bind_err_def l2_def map_nd_tabulate)

section \<open>Facts about rounding\<close>

lemma round_half_even_near:
  assumes "\<bar>y - of_int m\<bar> < 1 / 2"
  shows "round_half_even y = m"
proof (cases "of_int m \<le> y")
  case True
  with assms have "\<lfloor>y\<rfloor> = m" by (intro floor_unique) auto
  with assms True show ?thesis by (simp add: round_half_even_def)
next
  case False
  with assms have "\<lfloor>y\<rfloor> = m - 1" by (intro floor_unique) auto
  with assms False show ?thesis by (auto simp add: round_half_even_def Let_def)
qed

lemma round_double_near:
  assumes lo: "2 ^ 52 \<le> \<bar>x\<bar> * 2 ^ k" and hi: "\<bar>x\<bar> * 2 ^ k < 2 ^ 53"
    and near: "\<bar>x * 2 ^ k - of_int m\<bar> < 1 / 2"
  shows "round_double x = of_int m / 2 ^ k"
proof -
  from lo have nz: "x \<noteq> 0" by auto
  then have pos: "0 < \<bar>x\<bar>" by simp
  have p: "(2::real) powr (52 - real k) = 2 ^ 52 / 2 ^ k"
    by (simp add: powr_diff powr_realpow)
  have q: "(2::real) powr (52 - real k + 1) = 2 ^ 53 / 2 ^ k"
    by (simp add: powr_add powr_diff powr_realpow)
  have "2 powr (52 - real k) \<le> \<bar>x\<bar>"
    unfolding p using lo by (simp add: field_simps)
  then have a: "52 - real k \<le> log 2 \<bar>x\<bar>"
    using pos by (simp add: le_log_iff)
  have "\<bar>x\<bar> < 2 powr (52 - real k + 1)"
    unfolding q using hi by (simp add: field_simps)
  then have b: "log 2 \<bar>x\<bar> < 52 - real k + 1"
    using pos by (simp add: log_less_iff)
  have "\<lfloor>log 2 \<bar>x\<bar>\<rfloor> = 52 - int k"
    using a b by (intro floor_unique) simp_all
  then have e: "\<lfloor>log 2 \<bar>x\<bar>\<rfloor> - 52 = - int k" by simp
  have s: "(2::real) powr (- real k) = 1 / 2 ^ k"
    by (simp add: powr_minus powr_realpow field_simps)
  show ?thesis
    using nz round_half_even_near [OF near]
    by (simp add: round_double_def e s)
qed

lemma tabulate_eq_item:
  "tabulate shp f = tabulate shp h \<Longrightarrow> in_bounds shp idx \<Longrightarrow> f idx = h idx"
  using item_tabulate [of shp idx f] item_tabulate [of shp idx h] by simp

lemma round_double_sqrt2: "round_double (sqrt 2) = 6369051672525773 / 2 ^ 52"
proof (rule round_double_near [where m = 6369051672525773 and k = 52, simplified of_int_numeral])
  have lo: "12738103345051545 / 2 ^ 53 < sqrt 2"
    by (rule real_less_rsqrt) (simp add: power2_eq_square)
  have hi: "sqrt 2 < 12738103345051547 / 2 ^ 53"
    by (rule real_less_lsqrt) (simp_all add: power2_eq_square)
  show "2 ^ 52 \<le> \<bar>sqrt 2\<bar> * 2 ^ 52"
    using lo by simp
  show "\<bar>sqrt 2\<bar> * 2 ^ 52 < 2 ^ 53"
    using hi by simp
  have "6369051672525773 - 1 / 2 < sqrt 2 * 2 ^ 52" "sqrt 2 * 2 ^ 52 < 6369051672525773 + 1 / 2"
    using lo hi by (simp_all add: field_simps)
  then show "\<bar>sqrt 2 * 2 ^ 52 - 6369051672525773\<bar> < 1 / 2"
    by linarith
qed

lemma round_double_small:
  "round_double (- 1) = - 1" "round_double 1 = 1" "round_double 2 = 2"
  using round_double_near [of "- 1" 52 "- (2 ^ 52)"] round_double_near [of 1 52 "2 ^ 52"]
    round_double_near [of 2 51 "2 ^ 52"]
  by simp_all

lemma round_double_sqrt2_squared:
  "round_double (6369051672525773 / 2 ^ 52 * (6369051672525773 / 2 ^ 52)) = 4503599627370497 / 2 ^ 51"
  using round_double_near [of "6369051672525773 / 2 ^ 52 * (6369051672525773 / 2 ^ 52)" 51 4503599627370497]
  by simp

lemma round_double_quarters:
  "round_double (1 / 4) = 1 / 4" "round_double (1 / 2) = 1 / 2"
  using round_double_near [of "1 / 4" 54 "2 ^ 52"] round_double_near [of "1 / 2" 53 "2 ^ 52"]
  by simp_all

lemma foldl_plus_sum: "foldl (\<lambda>acc k. acc + f k) a [0..<n] = a + (\<Sum>k<n. f k)"
  by (induction n) (simp_all add: add.assoc)

lemma sum_last_fl_exact: "sum_last_fl (\<lambda>x. x) A = sum_last A"
  by (simp add: sum_last_fl_def sum_last_def foldl_plus_sum)

lemma diffs_fn_fl_exact: "diffs_fn_fl (\<lambda>x. x) = diffs_fn"
  by (rule ext) (simp add: diffs_fn_fl_def diffs_fn_def)

lemma F2_fl_exact: "F2_fl (\<lambda>x. x) = F2"
  by (rule ext) (simp add: F2_fl_def F2_def sum_last_fl_exact power2_eq_square)

lemma l2_fl_exact: "l2_fl (\<lambda>x. x) = l2"
  by (rule ext) (simp add: l2_fl_def l2_def F2_fl_exact)

lemma pairwise_distances_fl_exact:
  "pairwise_distances_fl (\<lambda>x. x) data nn_indices metric = pairwise_distances data nn_indices metric"
  by (simp add: pairwise_distances_fl_def pairwise_distances_def diffs_fn_fl_exact F2_fl_exact
      l2_fl_exact Let_def cong: if_cong)

lemma diffs_fn_fl_rank3:
  assumes "shape points = [b, n, f]"
  shows "diffs_fn_fl rnd points = Inr (tabulate [b, n, n, f]
           (\<lambda>idx. rnd (item points [idx ! 0, idx ! 1, idx ! 3]
                          - item points [idx ! 0, idx ! 2, idx ! 3])))"
proof -
  have s2: "shape (expand_dims points 2) = [b, n, Suc 0, f]"
    and s1: "shape (expand_dims points (Suc 0)) = [b, Suc 0, n, f]"
    using assms by (simp_all add: expand_dims_def)
  have bc: "broadcastable [b, n, Suc 0, f] [b, Suc 0, n, f]"
    by (simp add: broadcastable_def pad_shape_def)
  have bs: "broadcast_shape [b, n, Suc 0, f] [b, Suc 0, n, f] = [b, n, n, f]"
    by (simp add: broadcast_shape_def pad_shape_def)
  have "tabulate [b, n, n, f]
          (\<lambda>idx. rnd (item (expand_dims points 2) (bcast_index [b, n, Suc 0, f] idx)
                - item (expand_dims points (Suc 0)) (bcast_index [b, Suc 0, n, f] idx)))
        = tabulate [b, n, n, f]
          (\<lambda>idx. rnd (item points [idx ! 0, idx ! 1, idx ! 3]
                         - item points [idx ! 0, idx ! 2, idx ! 3]))"
  proof (rule tabulate_cong)
    fix idx assume "in_bounds [b, n, n, f] idx"
    then obtain i0 i1 i2 i3 where idx: "idx = [i0, i1, i2, i3]"
      and lt: "i0 < b" "i1 < n" "i2 < n" "i3 < f"
      by auto
    show "rnd (item (expand_dims points 2) (bcast_index [b, n, Suc 0, f] idx)
                - item (expand_dims points (Suc 0)) (bcast_index [b, Suc 0, n, f] idx))
          = rnd (item points [idx ! 0, idx ! 1, idx ! 3] - item points [idx ! 0, idx ! 2, idx ! 3])"
      using lt assms
      by (simp add: idx bcast_index_def bcast_keep item_expand_dims_2 item_expand_dims_1)
  qed
  then show ?thesis
    using assms by (simp add: diffs_fn_fl_def rank_def broadcast2_def s1 s2 bc bs)
qed

lemma sum_last_fl_tabulate:
  "sum_last_fl rnd (tabulate (shp @ [m]) g)
   = tabulate shp (\<lambda>idx. foldl (\<lambda>acc k. rnd (acc + g (idx @ [k]))) 0 [0..<m])"
proof -
  have "tabulate shp
          (\<lambda>idx. foldl (\<lambda>acc k. rnd (acc + item (tabulate (shp @ [m]) g) (idx @ [k]))) 0 [0..<m])
        = tabulate shp (\<lambda>idx. foldl (\<lambda>acc k. rnd (acc + g (idx @ [k]))) 0 [0..<m])"
    by (rule tabulate_cong, rule foldl_cong) (simp_all add: in_bounds_snoc)
  then show ?thesis by (simp add: sum_last_fl_def)
qed

lemma F2_fl_tabulate4:
  "F2_fl rnd (tabulate [b, n, n, f] (\<lambda>idx. g (idx ! 0) (idx ! 1) (idx ! 2) (idx ! 3)))
   = tabulate [b, n, n]
       (\<lambda>idx. foldl (\<lambda>acc k. rnd (acc + rnd (g (idx ! 0) (idx ! 1) (idx ! 2) k
                                               * g (idx ! 0) (idx ! 1) (idx ! 2) k))) 0 [0..<f])"
proof -
  have "tabulate [b, n, n]
          (\<lambda>idx. foldl (\<lambda>acc k. rnd (acc + rnd (g ((idx @ [k]) ! 0) ((idx @ [k]) ! 1) ((idx @ [k]) ! 2) ((idx @ [k]) ! 3)
                                     * g ((idx @ [k]) ! 0) ((idx @ [k]) ! 1) ((idx @ [k]) ! 2) ((idx @ [k]) ! 3)))) 0 [0..<f])
        = tabulate [b, n, n]
       (\<lambda>idx. foldl (\<lambda>acc k. rnd (acc + rnd (g (idx ! 0) (idx ! 1) (idx ! 2) k
                                               * g (idx ! 0) (idx ! 1) (idx ! 2) k))) 0 [0..<f])"
    by (rule tabulate_cong) auto
  with sum_last_fl_tabulate [of rnd "[b, n, n]" f] show ?thesis
    by (simp add: F2_fl_def map_nd_tabulate)
qed

lemma pairwise_distances_fl_F2:
  assumes "shape (take_rows data nn_indices) = [b, n, f]"
  shows "pairwise_distances_fl rnd data nn_indices ''F2''
         = Inr (tabulate [b, n, n]
             (\<lambda>idx. foldl (\<lambda>acc k. rnd (acc +
                 rnd (rnd (item (take_rows data nn_indices) [idx ! 0, idx ! 1, k]
                           - item (take_rows data nn_indices) [idx ! 0, idx ! 2, k])
                      * rnd (item (take_rows data nn_indices) [idx ! 0, idx ! 1, k]
                           - item (take_rows data nn_indices) [idx ! 0, idx ! 2, k])))) 0 [0..<f]))"
  using F2_fl_tabulate4 [of rnd b n f "\<lambda>i0 i1 i2 i3. rnd (item (take_rows data nn_indices) [i0, i1, i3]
      - item (take_rows data nn_indices) [i0, i2, i3])"]
  by (simp add: pairwise_distances_fl_def diffs_fn_fl_rank3 [OF assms] bind_err_def)

lemma pairwise_distances_fl_l2:
  "pairwise_distances_fl rnd data nn_indices ''l2''
   = map_sum id (map_nd (\<lambda>x. rnd (sqrt x))) (pairwise_distances_fl rnd data nn_indices ''F2'')"
  by (simp add: pairwise_distances_fl_def bind_err_def l2_fl_def split: sum.splits)

lemma ieee_mul_zero_inf: "ieee_mul (ieee_mul c (Fin 0)) PInf = NaN"
  by (cases c) simp_all

section \<open>The kernels\<close>

text \<open>
  C5, as the code has it. The RBF kernel maps its input, which is already the squared
  distance, elementwise to \<open>exp (- s / 2)\<close>: the input is halved and negated, not
  squared again. An input that is 0 everywhere is mapped to 1 everywhere.
\<close>

theorem rbf_fn_half_of_input:
  "rbf_fn A = map_nd (\<lambda>s. exp (- s / 2)) A \<and>
   rbf_fn (tabulate shp (\<lambda>_. 0)) = tabulate shp (\<lambda>_. 1)"
  by (simp add: rbf_fn_def map_nd_def tabulate_def comp_def)

text \<open>
  C5 as it is worded maps the input \<open>d\<close> to \<open>exp (- d\<^sup>2 / 2)\<close>. At the squared
  distance 2 the kernel returns \<open>exp (- 1)\<close>, not \<open>exp (- 2)\<close>.
\<close>

theorem rbf_fn_not_square_counterexample:
  "rbf_fn \<lparr>shape = [1], elems = [2]\<rparr>
     \<noteq> map_nd (\<lambda>d. exp (- d\<^sup>2 / 2)) \<lparr>shape = [1], elems = [2]\<rparr>"
  by (simp add: rbf_fn_def map_nd_def)

text \<open>
  C4. On a distance tensor of shape \<open>(batch_count, nn_count, nn_count)\<close> the general
  Mat\'ern kernel returns exactly 1 at every diagonal entry \<open>[b, i, i]\<close>. The diagonal is
  set to 1 before the Bessel function is evaluated, which therefore sees
  \<open>sqrt (2 * nu)\<close> there and not 0, and it is set to 1 again at the end. Off the
  diagonal the entry at distance \<open>d\<close> is
  \<open>2 powr (1 - nu) / \<Gamma>(nu) * t powr nu * (bessel_kve nu t / exp \<bar>t\<bar>)\<close> with
  \<open>t = sqrt (2 * nu) * d\<close>. Here \<open>G\<close> is the value \<open>\<Gamma>(nu)\<close>, positive as it is for
  every positive \<open>nu\<close>, of which \<open>gammaln\<close> returns the logarithm, and the Bessel
  function is the exponentially scaled one that the code calls.
\<close>

theorem matern_gen_fn_rank3:
  assumes "shape dists = [batch_count, nn_count, nn_count]" and "well_shaped dists"
    and "gammaln nu = ln G" and "0 < G"
    and "b < batch_count" and "i < nn_count" and "j < nn_count"
  shows "item (matern_gen_fn bessel_kve gammaln dists nu) [b, i, i] = 1 \<and>
         item (matern_gen_tmp dists nu) [b, i, i] = sqrt (2 * nu) \<and>
         (i \<noteq> j \<longrightarrow>
            item (matern_gen_fn bessel_kve gammaln dists nu) [b, i, j]
              = (let t = sqrt (2 * nu) * item dists [b, i, j]
                 in 2 powr (1 - nu) / G * t powr nu * (bessel_kve nu t / exp \<bar>t\<bar>)))"
  using assms by (simp add: matern_gen_fn_def matern_gen_tmp_def rank_def Let_def)

theorem matern_gen_fn_rank3_witness:
  "shape \<lparr>shape = [1, 2, 2], elems = [0, 3, 3, 0 :: real]\<rparr> = [1, 2, 2] \<and>
   well_shaped \<lparr>shape = [1, 2, 2], elems = [0, 3, 3, 0 :: real]\<rparr> \<and>
   (\<lambda>x. 0 :: real) 2 = ln 1 \<and> (0 :: real) < 1 \<and> (0 :: nat) < 1 \<and> (0 :: nat) < 2 \<and> (1 :: nat) < 2 \<and>
   item (matern_gen_fn (\<lambda>nu t. exp (- t)) (\<lambda>x. 0)
           \<lparr>shape = [1, 2, 2], elems = [0, 3, 3, 0]\<rparr> 2) [0, 0, 0] = 1 \<and>
   item (matern_gen_tmp \<lparr>shape = [1, 2, 2], elems = [0, 3, 3, 0]\<rparr> 2) [0, 0, 0] = 2 \<and>
   item (matern_gen_fn (\<lambda>nu t. exp (- t)) (\<lambda>x. 0)
           \<lparr>shape = [1, 2, 2], elems = [0, 3, 3, 0]\<rparr> 2) [0, 0, 1]
     = 2 powr (1 - 2) / 1 * 6 powr 2 * (exp (- 6) / exp 6)"
  using matern_gen_fn_rank3 [of "\<lparr>shape = [1, 2, 2], elems = [0, 3, 3, 0]\<rparr>" 1 2
      "\<lambda>x. 0" 2 1 0 0 1 "\<lambda>nu t. exp (- t)"]
  by (simp add: well_shaped_def item_def Let_def)

text \<open>
  C10. The diagonal is forced only when the tensor has three axes. On a tensor of one
  or two axes an entry whose distance is 0 is not set to 1: it reaches the Bessel
  function as the argument 0, and the entry of the result is the product the code forms
  from the value returned there. With one axis \<open>const_val\<close> is not written into \<open>K\<close>,
  and the first factor is the distance itself. The Bessel function is infinite at 0, so
  for a positive \<open>nu\<close> the product is 0 times infinity: the entry is NaN.
\<close>

theorem matern_gen_fn_zero_distance_unforced:
  assumes "well_shaped dists" and "rank dists = 1 \<or> rank dists = 2"
    and "in_bounds (shape dists) idx" and "item dists idx = Fin 0"
    and "0 < nu"
  shows "item (matern_gen_fn_ieee bessel_kve gammaln dists nu) idx
           = ieee_mul
               (ieee_mul
                  (if rank dists = 2
                   then ieee_div (Fin (2 powr (1 - nu))) (ieee_exp (gammaln nu)) else Fin 0)
                  (ieee_pow (Fin 0) nu))
               (ieee_div (bessel_kve nu (Fin 0)) (ieee_exp (ieee_abs (Fin 0)))) \<and>
         (bessel_kve nu (Fin 0) = PInf \<longrightarrow>
            item (matern_gen_fn_ieee bessel_kve gammaln dists nu) idx = NaN \<and>
            item (matern_gen_fn_ieee bessel_kve gammaln dists nu) idx \<noteq> Fin 1)"
  using assms by (auto simp add: matern_gen_fn_ieee_def rank_def Let_def ieee_mul_zero_inf)

theorem matern_gen_fn_zero_distance_unforced_witness:
  "well_shaped \<lparr>shape = [1, 2], elems = [Fin 0, Fin 3]\<rparr> \<and>
   (rank \<lparr>shape = [1, 2], elems = [Fin 0, Fin 3]\<rparr> = 1 \<or>
    rank \<lparr>shape = [1, 2], elems = [Fin 0, Fin 3]\<rparr> = 2) \<and>
   in_bounds (shape \<lparr>shape = [1, 2], elems = [Fin 0, Fin 3]\<rparr>) [0, 0] \<and>
   item \<lparr>shape = [1, 2], elems = [Fin 0, Fin 3]\<rparr> [0, 0] = Fin 0 \<and>
   (0 :: real) < 2 \<and>
   (\<lambda>nu t. if t = Fin 0 then PInf else Fin 1) 2 (Fin 0) = PInf \<and>
   item (matern_gen_fn_ieee (\<lambda>nu t. if t = Fin 0 then PInf else Fin 1) (\<lambda>x. Fin 0)
           \<lparr>shape = [1, 2], elems = [Fin 0, Fin 3]\<rparr> 2) [0, 0] = NaN \<and>
   item (matern_gen_fn_ieee (\<lambda>nu t. if t = Fin 0 then PInf else Fin 1) (\<lambda>x. Fin 0)
           \<lparr>shape = [1, 2], elems = [Fin 0, Fin 3]\<rparr> 2) [0, 1]
     = Fin (2 powr (1 - 2) / exp 0 * 6 powr 2 * (1 / exp 6))"
proof -
  have "item (matern_gen_fn_ieee (\<lambda>nu t. if t = Fin 0 then PInf else Fin 1) (\<lambda>x. Fin 0)
           \<lparr>shape = [1, 2], elems = [Fin 0, Fin 3]\<rparr> 2) [0, 1]
     = Fin (2 powr (1 - 2) / exp 0 * 6 powr 2 * (1 / exp 6))"
    by (simp add: matern_gen_fn_ieee_def rank_def Let_def item_def zip_nd_def map_nd_def
        at_all_set_def)
  then show ?thesis
    using matern_gen_fn_zero_distance_unforced [of "\<lparr>shape = [1, 2], elems = [Fin 0, Fin 3]\<rparr>" "[0, 0]" 2
        "\<lambda>nu t. if t = Fin 0 then PInf else Fin 1" "\<lambda>x. Fin 0"]
    by (simp add: well_shaped_def rank_def item_def)
qed

section \<open>The distance tensors\<close>

text \<open>
  C7. A metric that is neither \<open>l2\<close> nor \<open>F2\<close> makes \<open>pairwise_distances\<close> and
  \<open>crosswise_distances\<close> raise a \<open>ValueError\<close> whose message contains the metric;
  no distance is computed.
\<close>

theorem unsupported_metric_raises:
  assumes "metric \<noteq> ''l2''" and "metric \<noteq> ''F2''"
  shows "pairwise_distances data nn_indices metric
           = Inl (ValueError (''Metric '' @ metric @ '' is not supported!'')) \<and>
         crosswise_distances data nn_data data_indices nn_indices metric
           = Inl (ValueError (''Metric '' @ metric @ '' is not supported!''))"
  using assms by (simp add: pairwise_distances_def crosswise_distances_def)

theorem unsupported_metric_raises_witness:
  "''cosine'' \<noteq> ''l2'' \<and> ''cosine'' \<noteq> ''F2'' \<and>
   pairwise_distances \<lparr>shape = [2, 1], elems = [0, 1]\<rparr> \<lparr>shape = [1, 2], elems = [0, 1]\<rparr> ''cosine''
     = Inl (ValueError ''Metric cosine is not supported!'') \<and>
   crosswise_distances \<lparr>shape = [2, 1], elems = [0, 1]\<rparr> \<lparr>shape = [2, 1], elems = [0, 1]\<rparr>
       \<lparr>shape = [1], elems = [0]\<rparr> \<lparr>shape = [1, 2], elems = [0, 1]\<rparr> ''cosine''
     = Inl (ValueError ''Metric cosine is not supported!'')"
  using unsupported_metric_raises [of "''cosine''" "\<lparr>shape = [2, 1], elems = [0, 1]\<rparr>"
      "\<lparr>shape = [1, 2], elems = [0, 1]\<rparr>" "\<lparr>shape = [2, 1], elems = [0, 1]\<rparr>"
      "\<lparr>shape = [1], elems = [0]\<rparr>"]
  by simp

text \<open>
  C8. For a feature matrix and a tensor of valid neighbour indices,
  \<open>pairwise_distances\<close> under \<open>l2\<close> returns a tensor \<open>D\<close> of shape
  \<open>(batch_count, nn_count, nn_count)\<close> with \<open>D[b, i, j] = D[b, j, i]\<close> and
  \<open>D[b, i, i] = 0\<close>.
\<close>

theorem pairwise_l2_symmetric:
  assumes "shape data = [point_count, feature_count]"
    and "shape nn_indices = [batch_count, nn_count]"
    and "\<forall>x\<in>set (elems nn_indices). 0 \<le> x \<and> x < int point_count"
  shows "\<exists>D. pairwise_distances data nn_indices ''l2'' = Inr D \<and>
           shape D = [batch_count, nn_count, nn_count] \<and>
           (\<forall>b<batch_count. \<forall>i<nn_count. \<forall>j<nn_count.
              item D [b, i, j] = item D [b, j, i] \<and> item D [b, i, i] = 0)"
proof -
  have "shape (take_rows data nn_indices) = [batch_count, nn_count, feature_count]"
    using assms by simp
  from l2_diffs [OF this] show ?thesis
    by (simp add: pairwise_distances_def power2_commute)
qed

theorem pairwise_l2_symmetric_witness:
  "shape \<lparr>shape = [2, 2], elems = [0, 0, 3, 4 :: real]\<rparr> = [2, 2] \<and>
   shape \<lparr>shape = [1, 2], elems = [0, 1 :: int]\<rparr> = [1, 2] \<and>
   set (elems \<lparr>shape = [1, 2], elems = [0, 1 :: int]\<rparr>) \<subseteq> {0..<int 2} \<and>
   (\<exists>D. pairwise_distances \<lparr>shape = [2, 2], elems = [0, 0, 3, 4]\<rparr>
            \<lparr>shape = [1, 2], elems = [0, 1]\<rparr> ''l2'' = Inr D \<and>
        shape D = [1, 2, 2] \<and>
        item D [0, 0, 1] = item D [0, 1, 0] \<and> item D [0, 0, 0] = 0 \<and> item D [0, 1, 1] = 0)"
proof -
  have data: "shape \<lparr>shape = [2, 2], elems = [0, 0, 3, 4 :: real]\<rparr> = [2, 2]"
    and ind: "shape \<lparr>shape = [1, 2], elems = [0, 1 :: int]\<rparr> = [1, 2]"
    and valid: "\<forall>x\<in>set (elems \<lparr>shape = [1, 2], elems = [0, 1 :: int]\<rparr>). 0 \<le> x \<and> x < int 2"
    and sub: "set (elems \<lparr>shape = [1, 2], elems = [0, 1 :: int]\<rparr>) \<subseteq> {0..<int 2}"
    by simp_all
  from pairwise_l2_symmetric [OF data ind valid]
  obtain D where run: "pairwise_distances \<lparr>shape = [2, 2], elems = [0, 0, 3, 4]\<rparr>
            \<lparr>shape = [1, 2], elems = [0, 1]\<rparr> ''l2'' = Inr D"
    and shp: "shape D = [1, 2, 2]"
    and sym: "\<forall>b<1. \<forall>i<2. \<forall>j<2. item D [b, i, j] = item D [b, j, i] \<and> item D [b, i, i] = 0"
    by blast
  have "item D [0, 0, 1] = item D [0, 1, 0] \<and> item D [0, 0, 0] = 0"
    using sym [rule_format, of 0 0 1] by simp
  moreover have "item D [0, 1, 1] = 0"
    using sym [rule_format, of 0 1 1] by simp
  ultimately show ?thesis
    using data ind sub run shp by blast
qed

lemma pairwise_F2_is_l2_squared:
  assumes "shape data = [point_count, feature_count]"
    and "shape nn_indices = [batch_count, nn_count]"
    and "\<forall>x\<in>set (elems nn_indices). 0 \<le> x \<and> x < int point_count"
  shows "\<exists>D. pairwise_distances data nn_indices ''l2'' = Inr D \<and>
           pairwise_distances data nn_indices ''F2'' = Inr (map_nd (\<lambda>x. x\<^sup>2) D)"
proof -
  have "shape (take_rows data nn_indices) = [batch_count, nn_count, feature_count]"
    using assms by simp
  from l2_diffs [OF this] F2_diffs [OF this] show ?thesis
    by (simp add: pairwise_distances_def map_nd_tabulate sum_nonneg)
qed

text \<open>
  C9, as the code has it. The \<open>l2\<close> tensor is the elementwise square root of the \<open>F2\<close>
  tensor on the same inputs, rounded once. In exact arithmetic the \<open>F2\<close> tensor is
  therefore the elementwise square of the \<open>l2\<close> tensor.
\<close>

theorem pairwise_l2_is_rounded_sqrt_of_F2:
  assumes "shape data = [point_count, feature_count]"
    and "shape nn_indices = [batch_count, nn_count]"
    and "\<forall>x\<in>set (elems nn_indices). 0 \<le> x \<and> x < int point_count"
  shows "(\<exists>D2. pairwise_distances_fl rnd data nn_indices ''F2'' = Inr D2 \<and>
            pairwise_distances_fl rnd data nn_indices ''l2''
              = Inr (map_nd (\<lambda>x. rnd (sqrt x)) D2)) \<and>
         (\<exists>D. pairwise_distances_fl (\<lambda>x. x) data nn_indices ''l2'' = Inr D \<and>
            pairwise_distances_fl (\<lambda>x. x) data nn_indices ''F2'' = Inr (map_nd (\<lambda>x. x\<^sup>2) D))"
proof -
  have "shape (take_rows data nn_indices) = [batch_count, nn_count, feature_count]"
    using assms by simp
  from pairwise_distances_fl_F2 [OF this] have
    "\<exists>D2. pairwise_distances_fl rnd data nn_indices ''F2'' = Inr D2"
    by simp
  then have "\<exists>D2. pairwise_distances_fl rnd data nn_indices ''F2'' = Inr D2 \<and>
            pairwise_distances_fl rnd data nn_indices ''l2''
              = Inr (map_nd (\<lambda>x. rnd (sqrt x)) D2)"
    by (auto simp add: pairwise_distances_fl_l2)
  moreover have "\<exists>D. pairwise_distances_fl (\<lambda>x. x) data nn_indices ''l2'' = Inr D \<and>
            pairwise_distances_fl (\<lambda>x. x) data nn_indices ''F2'' = Inr (map_nd (\<lambda>x. x\<^sup>2) D)"
    using pairwise_F2_is_l2_squared [OF assms] by (simp add: pairwise_distances_fl_exact)
  ultimately show ?thesis by blast
qed

theorem pairwise_l2_is_rounded_sqrt_of_F2_witness:
  "shape \<lparr>shape = [2, 2], elems = [0, 0, 1, 1 :: real]\<rparr> = [2, 2] \<and>
   shape \<lparr>shape = [1, 2], elems = [0, 1 :: int]\<rparr> = [1, 2] \<and>
   set (elems \<lparr>shape = [1, 2], elems = [0, 1 :: int]\<rparr>) \<subseteq> {0..<int 2} \<and>
   (\<exists>D2. pairwise_distances_fl round_double \<lparr>shape = [2, 2], elems = [0, 0, 1, 1]\<rparr>
            \<lparr>shape = [1, 2], elems = [0, 1]\<rparr> ''F2'' = Inr D2 \<and>
        pairwise_distances_fl round_double \<lparr>shape = [2, 2], elems = [0, 0, 1, 1]\<rparr>
            \<lparr>shape = [1, 2], elems = [0, 1]\<rparr> ''l2'' = Inr (map_nd (\<lambda>x. round_double (sqrt x)) D2)) \<and>
   (\<exists>D. pairwise_distances_fl (\<lambda>x. x) \<lparr>shape = [2, 2], elems = [0, 0, 1, 1]\<rparr>
            \<lparr>shape = [1, 2], elems = [0, 1]\<rparr> ''l2'' = Inr D \<and>
        pairwise_distances_fl (\<lambda>x. x) \<lparr>shape = [2, 2], elems = [0, 0, 1, 1]\<rparr>
            \<lparr>shape = [1, 2], elems = [0, 1]\<rparr> ''F2'' = Inr (map_nd (\<lambda>x. x\<^sup>2) D))"
proof -
  have valid: "\<forall>x\<in>set (elems \<lparr>shape = [1, 2], elems = [0, 1 :: int]\<rparr>). 0 \<le> x \<and> x < int 2"
    by simp
  from pairwise_l2_is_rounded_sqrt_of_F2 [of "\<lparr>shape = [2, 2], elems = [0, 0, 1, 1]\<rparr>" 2 2
      "\<lparr>shape = [1, 2], elems = [0, 1]\<rparr>" 1 2 round_double, OF _ _ valid]
  show ?thesis by simp
qed

text \<open>
  C9 as it is worded fails in double precision. For the points \<open>(0, 0)\<close> and \<open>(1, 1)\<close>
  the \<open>F2\<close> distance is 2, the \<open>l2\<close> distance is the double nearest to the square root
  of 2, and its square, rounded, is \<open>2 + 2 ^ - 51\<close>.
\<close>

theorem pairwise_F2_not_l2_squared_counterexample:
  "pairwise_distances_fl round_double \<lparr>shape = [2, 2], elems = [0, 0, 1, 1]\<rparr>
      \<lparr>shape = [1, 2], elems = [0, 1]\<rparr> ''F2''
   \<noteq> map_sum id (map_nd (\<lambda>x. round_double (x * x)))
       (pairwise_distances_fl round_double \<lparr>shape = [2, 2], elems = [0, 0, 1, 1]\<rparr>
          \<lparr>shape = [1, 2], elems = [0, 1]\<rparr> ''l2'')"
proof
  let ?data = "\<lparr>shape = [2, 2], elems = [0, 0, 1, 1 :: real]\<rparr>"
  let ?ind = "\<lparr>shape = [1, 2], elems = [0, 1 :: int]\<rparr>"
  let ?P = "take_rows ?data ?ind"
  let ?g = "\<lambda>idx. foldl (\<lambda>acc k. round_double (acc +
                 round_double (round_double (item ?P [idx ! 0, idx ! 1, k] - item ?P [idx ! 0, idx ! 2, k])
                      * round_double (item ?P [idx ! 0, idx ! 1, k] - item ?P [idx ! 0, idx ! 2, k])))) 0 [0..<2]"
  assume eq: "pairwise_distances_fl round_double ?data ?ind ''F2''
     = map_sum id (map_nd (\<lambda>x. round_double (x * x)))
         (pairwise_distances_fl round_double ?data ?ind ''l2'')"
  have shp: "shape ?P = [1, 2, 2]" by simp
  have F: "pairwise_distances_fl round_double ?data ?ind ''F2'' = Inr (tabulate [1, 2, 2] ?g)"
    by (rule pairwise_distances_fl_F2 [OF shp])
  have pts: "item ?P [0, 0, 0] = 0" "item ?P [0, 0, 1] = 0" "item ?P [0, 1, 0] = 1" "item ?P [0, 1, 1] = 1"
    by (simp_all add: take_rows_def rank_def) (simp_all add: item_def clip_index_def)
  have upt: "[0..<2] = [0, 1]"
    by (simp add: upt_rec)
  have g: "?g [0, 0, 1] = 2"
    using pts by (simp add: upt round_double_small)
  from eq have "tabulate [1, 2, 2] ?g
      = tabulate [1, 2, 2] (\<lambda>idx. round_double (round_double (sqrt (?g idx)) * round_double (sqrt (?g idx))))"
    unfolding pairwise_distances_fl_l2 F by (simp add: map_nd_tabulate)
  moreover have "in_bounds [1, 2, 2] [0, 0, 1]"
    by simp
  ultimately have "?g [0, 0, 1]
      = round_double (round_double (sqrt (?g [0, 0, 1])) * round_double (sqrt (?g [0, 0, 1])))"
    by (rule tabulate_eq_item)
  then have "(2::real) = 4503599627370497 / 2 ^ 51"
    unfolding g round_double_sqrt2 round_double_sqrt2_squared .
  then show False by simp
qed

section \<open>The fast index scheme\<close>

lemma shape_arange_column: "shape (expand_dims (arange m) (Suc 0)) = [m, Suc 0]"
  by (simp add: expand_dims_def arange_def)

lemma item_arange_column: "t < m \<Longrightarrow> item (expand_dims (arange m) (Suc 0)) [t, 0] = int t"
  by (simp add: item_def expand_dims_def arange_def)

lemma fast_index_rows:
  assumes "shape nn_indices = [m, n]" and "0 < n"
  shows "\<exists>nearest fast. drop_last_column nn_indices = Inr nearest \<and>
           concatenate_axis1 (expand_dims (arange m) 1) nearest = Inr fast \<and>
           shape fast = [m, n] \<and>
           (\<forall>t<m. row_of fast t = int t # take (n - 1) (row_of nn_indices t))"
proof -
  define nearest where "nearest = tabulate [m, n - 1] (item nn_indices)"
  define fast where "fast = tabulate [m, Suc 0 + (n - 1)]
      (\<lambda>idx. if idx ! 1 < Suc 0 then item (expand_dims (arange m) (Suc 0)) idx
              else item nearest [idx ! 0, idx ! 1 - Suc 0])"
  have drop: "drop_last_column nn_indices = Inr nearest"
    using assms by (simp add: drop_last_column_def nearest_def)
  have "shape nearest = [m, n - 1]"
    by (simp add: nearest_def)
  then have cat: "concatenate_axis1 (expand_dims (arange m) 1) nearest = Inr fast"
    by (simp add: concatenate_axis1_def shape_arange_column fast_def)
  have shp: "shape fast = [m, n]"
    using assms by (simp add: fast_def)
  have rows: "row_of fast t = int t # take (n - 1) (row_of nn_indices t)" if "t < m" for t
  proof -
    have first: "item fast [t, 0] = int t"
      using that by (simp add: fast_def item_arange_column)
    have rest: "item fast [t, Suc j] = item nn_indices [t, j]" if "j < n - 1" for j
      using that \<open>t < m\<close> by (simp add: fast_def nearest_def)
    have "[0..<n] = 0 # map Suc [0..<n - 1]"
      using assms(2) by (cases n) (simp_all add: upt_conv_Cons map_Suc_upt del: upt_Suc)
    then have "row_of fast t = item fast [t, 0] # map (\<lambda>j. item fast [t, Suc j]) [0..<n - 1]"
      by (simp add: row_of_def shp comp_def)
    also have "\<dots> = int t # map (\<lambda>j. item nn_indices [t, j]) [0..<n - 1]"
      using rest first by simp
    also have "\<dots> = int t # take (n - 1) (row_of nn_indices t)"
      using assms by (simp add: row_of_def take_map)
    finally show ?thesis .
  qed
  from drop cat shp rows show ?thesis by blast
qed

text \<open>
  C6. For a neighbour-index tensor of shape \<open>(train_count, nn_count)\<close> with at least
  one neighbour per row, \<open>fast_nn_update\<close> returns a tensor of the same shape whose row
  \<open>t\<close> is \<open>t\<close> followed by the first \<open>nn_count - 1\<close> entries of the input row; and
  \<open>make_fast_regress_tensors\<close>, on features of \<open>train_count\<close> points, takes its
  pairwise distances and its gathered targets from exactly this tensor.
\<close>

theorem fast_nn_update_rows:
  assumes "shape nn_indices = [train_count, nn_count]" and "0 < nn_count"
    and "shape train_features = [train_count, feature_count]"
  shows "\<exists>fast. fast_nn_update nn_indices = Inr fast \<and>
           shape fast = [train_count, nn_count] \<and>
           (\<forall>t<train_count. row_of fast t = int t # take (nn_count - 1) (row_of nn_indices t)) \<and>
           make_fast_regress_tensors metric nn_indices train_features train_targets
             = bind_err (pairwise_distances train_features fast metric)
                 (\<lambda>pairwise_dists_fast. Inr (pairwise_dists_fast, take_rows train_targets fast))"
proof -
  from fast_index_rows [OF assms(1,2)] obtain nearest fast where
    "drop_last_column nn_indices = Inr nearest"
    and "concatenate_axis1 (expand_dims (arange train_count) 1) nearest = Inr fast"
    and "shape fast = [train_count, nn_count]"
    and "\<forall>t<train_count. row_of fast t = int t # take (nn_count - 1) (row_of nn_indices t)"
    by blast
  then show ?thesis
    using assms by (simp add: fast_nn_update_def make_fast_regress_tensors_def bind_err_def)
qed

theorem fast_nn_update_rows_witness:
  "shape \<lparr>shape = [2, 3], elems = [1, 0, 1, 0, 1, 0 :: int]\<rparr> = [2, 3] \<and> (0 :: nat) < 3 \<and>
   shape \<lparr>shape = [2, 1], elems = [0, 5 :: real]\<rparr> = [2, 1] \<and>
   (\<exists>fast. fast_nn_update \<lparr>shape = [2, 3], elems = [1, 0, 1, 0, 1, 0]\<rparr> = Inr fast \<and>
      shape fast = [2, 3] \<and>
      row_of fast 0 = [0, 1, 0] \<and> row_of fast 1 = [1, 0, 1] \<and>
      make_fast_regress_tensors ''l2'' \<lparr>shape = [2, 3], elems = [1, 0, 1, 0, 1, 0]\<rparr>
          \<lparr>shape = [2, 1], elems = [0, 5]\<rparr> \<lparr>shape = [2, 1], elems = [7, 9]\<rparr>
        = bind_err (pairwise_distances \<lparr>shape = [2, 1], elems = [0, 5]\<rparr> fast ''l2'')
            (\<lambda>pairwise_dists_fast.
               Inr (pairwise_dists_fast, take_rows \<lparr>shape = [2, 1], elems = [7, 9]\<rparr> fast)))"
proof -
  from fast_nn_update_rows [of "\<lparr>shape = [2, 3], elems = [1, 0, 1, 0, 1, 0]\<rparr>" 2 3
      "\<lparr>shape = [2, 1], elems = [0, 5]\<rparr>" 1 "''l2''" "\<lparr>shape = [2, 1], elems = [7, 9]\<rparr>"]
  obtain fast where "fast_nn_update \<lparr>shape = [2, 3], elems = [1, 0, 1, 0, 1, 0]\<rparr> = Inr fast"
    and "shape fast = [2, 3]"
    and rows: "\<forall>t<2. row_of fast t
                = int t # take (3 - 1) (row_of \<lparr>shape = [2, 3], elems = [1, 0, 1, 0, 1, 0]\<rparr> t)"
    and "make_fast_regress_tensors ''l2'' \<lparr>shape = [2, 3], elems = [1, 0, 1, 0, 1, 0]\<rparr>
          \<lparr>shape = [2, 1], elems = [0, 5]\<rparr> \<lparr>shape = [2, 1], elems = [7, 9]\<rparr>
        = bind_err (pairwise_distances \<lparr>shape = [2, 1], elems = [0, 5]\<rparr> fast ''l2'')
            (\<lambda>pairwise_dists_fast.
               Inr (pairwise_dists_fast, take_rows \<lparr>shape = [2, 1], elems = [7, 9]\<rparr> fast))"
    by auto
  moreover have "row_of fast 0 = [0, 1, 0] \<and> row_of fast 1 = [1, 0, 1]"
    using rows by (simp add: row_of_def item_def eval_nat_numeral)
  ultimately show ?thesis by simp
qed

section \<open>The local solves\<close>

lemma flatten_unit_axis:
  "(tabulate [b, Suc 0, r] f)\<lparr>shape := [b, r]\<rparr> = tabulate [b, r] (\<lambda>idx. f [idx ! 0, 0, idx ! 1])"
proof -
  have "f (unravel [b, Suc 0, r] p) = f [unravel [b, r] p ! 0, 0, unravel [b, r] p ! 1]"
    if "p < b * r" for p
  proof -
    from that have "0 < r" by (cases r) auto
    then show ?thesis by simp
  qed
  then show ?thesis by (simp add: tabulate_def)
qed

lemma item_unit_axis:
  "shape A = [b, n] \<Longrightarrow> item (A\<lparr>shape := [b, Suc 0, n]\<rparr>) [i, 0, j] = item A [i, j]"
  by (simp add: item_def)

lemma compute_solve_eq:
  assumes "shape Kcross = [b, n]" and "shape T = [b, n, r]"
    and "solve K T = Inr X" and "shape X = [b, n, r]"
  shows "muygps_compute_solve solve K Kcross T
         = Inr (tabulate [b, r] (\<lambda>idx. \<Sum>j<n. item Kcross [idx ! 0, j] * item X [idx ! 0, j, idx ! 1]))"
proof -
  have mm: "matmul (Kcross\<lparr>shape := [b, Suc 0, n]\<rparr>) X
        = Inr (tabulate [b, Suc 0, r]
            (\<lambda>idx. \<Sum>j<n. item Kcross [idx ! 0, j] * item X [idx ! 0, j, idx ! 2]))"
  proof -
    have "tabulate [b, Suc 0, r]
            (\<lambda>idx. \<Sum>j<n. item (Kcross\<lparr>shape := [b, Suc 0, n]\<rparr>)
                               [if b = Suc 0 then 0 else idx ! 0, idx ! Suc 0, j]
                          * item X [if b = Suc 0 then 0 else idx ! 0, j, idx ! 2])
          = tabulate [b, Suc 0, r]
            (\<lambda>idx. \<Sum>j<n. item Kcross [idx ! 0, j] * item X [idx ! 0, j, idx ! 2])"
      using assms(1) by (intro tabulate_cong) (auto simp: item_unit_axis)
    then show ?thesis
      using assms by (simp add: matmul_def)
  qed
  show ?thesis
    using assms
      flatten_unit_axis [of b r "\<lambda>idx. \<Sum>j<n. item Kcross [idx ! 0, j] * item X [idx ! 0, j, idx ! 2]"]
    by (simp add: muygps_compute_solve_def reshape_def bind_err_def mm)
qed

lemma inverse_solution:
  assumes inv: "inverse_of Kinv K n b"
    and sol: "\<forall>i<n. (\<Sum>j<n. item K [b, i, j] * x j) = y i"
    and "i < n"
  shows "x i = (\<Sum>j<n. item Kinv [b, i, j] * y j)"
proof -
  have "(\<Sum>j<n. item Kinv [b, i, j] * y j)
        = (\<Sum>j<n. item Kinv [b, i, j] * (\<Sum>l<n. item K [b, j, l] * x l))"
    using sol by simp
  also have "\<dots> = (\<Sum>j<n. \<Sum>l<n. item Kinv [b, i, j] * item K [b, j, l] * x l)"
    by (simp add: sum_distrib_left mult.assoc)
  also have "\<dots> = (\<Sum>l<n. \<Sum>j<n. item Kinv [b, i, j] * item K [b, j, l] * x l)"
    by (rule sum.swap)
  also have "\<dots> = (\<Sum>l<n. (\<Sum>j<n. item Kinv [b, i, j] * item K [b, j, l]) * x l)"
    by (simp add: sum_distrib_right)
  also have "\<dots> = (\<Sum>l<n. (if i = l then 1 else 0) * x l)"
    using inv \<open>i < n\<close> by (simp add: inverse_of_def)
  also have "\<dots> = (\<Sum>l<n. if l = i then x l else 0)"
    by (intro sum.cong) auto
  also have "\<dots> = x i"
    using \<open>i < n\<close> by simp
  finally show ?thesis by simp
qed

text \<open>
  C1. When the solver returns an array of the shape of the targets, the precomputed
  coefficients contracted with \<open>Kcross\<close> by \<open>muygps_fast_regress_solve\<close> are the
  tensor that \<open>muygps_compute_solve\<close> returns on the same \<open>K\<close>, \<open>Kcross\<close> and
  targets: entry \<open>[i, k]\<close> is the sum over \<open>j\<close> of \<open>Kcross[i, j] * coeffs[i, j, k]\<close>.
\<close>

theorem fast_regress_agrees_with_solve:
  assumes "shape Kcross = [batch_count, nn_count]"
    and "shape batch_nn_targets = [batch_count, nn_count, response_count]"
    and "solve K batch_nn_targets = Inr X" and "shape X = shape batch_nn_targets"
  shows "\<exists>out. muygps_compute_solve solve K Kcross batch_nn_targets = Inr out \<and>
           bind_err (muygps_fast_regress_precompute solve K batch_nn_targets)
             (\<lambda>coeffs_tensor. muygps_fast_regress_solve Kcross coeffs_tensor) = Inr out \<and>
           (\<forall>i<batch_count. \<forall>k<response_count.
              item out [i, k] = (\<Sum>j<nn_count. item Kcross [i, j] * item X [i, j, k]))"
  using assms compute_solve_eq [of Kcross batch_count nn_count batch_nn_targets response_count solve K X]
  by (simp add: muygps_fast_regress_precompute_def muygps_fast_regress_solve_def
      einsum_ij_ijk_ik_def bind_err_def)

theorem fast_regress_agrees_with_solve_witness:
  "shape \<lparr>shape = [1, 2], elems = [1, 2 :: real]\<rparr> = [1, 2] \<and>
   shape \<lparr>shape = [1, 2, 1], elems = [6, 8 :: real]\<rparr> = [1, 2, 1] \<and>
   (\<lambda>K B. Inr \<lparr>shape = [1, 2, 1], elems = [3, 2 :: real]\<rparr>)
      \<lparr>shape = [1, 2, 2], elems = [2, 0, 0, 4 :: real]\<rparr> \<lparr>shape = [1, 2, 1], elems = [6, 8 :: real]\<rparr>
     = (Inr \<lparr>shape = [1, 2, 1], elems = [3, 2]\<rparr> :: error + real ndarray) \<and>
   shape \<lparr>shape = [1, 2, 1], elems = [3, 2 :: real]\<rparr>
     = shape \<lparr>shape = [1, 2, 1], elems = [6, 8 :: real]\<rparr> \<and>
   (\<exists>out. muygps_compute_solve (\<lambda>K B. Inr \<lparr>shape = [1, 2, 1], elems = [3, 2]\<rparr>)
            \<lparr>shape = [1, 2, 2], elems = [2, 0, 0, 4]\<rparr> \<lparr>shape = [1, 2], elems = [1, 2]\<rparr>
            \<lparr>shape = [1, 2, 1], elems = [6, 8]\<rparr> = Inr out \<and>
      bind_err (muygps_fast_regress_precompute (\<lambda>K B. Inr \<lparr>shape = [1, 2, 1], elems = [3, 2]\<rparr>)
            \<lparr>shape = [1, 2, 2], elems = [2, 0, 0, 4]\<rparr> \<lparr>shape = [1, 2, 1], elems = [6, 8]\<rparr>)
          (\<lambda>coeffs_tensor. muygps_fast_regress_solve \<lparr>shape = [1, 2], elems = [1, 2]\<rparr> coeffs_tensor)
        = Inr out \<and>
      item out [0, 0] = 7)"
proof -
  from fast_regress_agrees_with_solve [of "\<lparr>shape = [1, 2], elems = [1, 2]\<rparr>" 1 2
      "\<lparr>shape = [1, 2, 1], elems = [6, 8]\<rparr>" 1
      "\<lambda>K B. Inr \<lparr>shape = [1, 2, 1], elems = [3, 2]\<rparr>"
      "\<lparr>shape = [1, 2, 2], elems = [2, 0, 0, 4]\<rparr>" "\<lparr>shape = [1, 2, 1], elems = [3, 2]\<rparr>"]
  obtain out where "muygps_compute_solve (\<lambda>K B. Inr \<lparr>shape = [1, 2, 1], elems = [3, 2]\<rparr>)
            \<lparr>shape = [1, 2, 2], elems = [2, 0, 0, 4]\<rparr> \<lparr>shape = [1, 2], elems = [1, 2]\<rparr>
            \<lparr>shape = [1, 2, 1], elems = [6, 8]\<rparr> = Inr out"
    and "bind_err (muygps_fast_regress_precompute (\<lambda>K B. Inr \<lparr>shape = [1, 2, 1], elems = [3, 2]\<rparr>)
            \<lparr>shape = [1, 2, 2], elems = [2, 0, 0, 4]\<rparr> \<lparr>shape = [1, 2, 1], elems = [6, 8]\<rparr>)
          (\<lambda>coeffs_tensor. muygps_fast_regress_solve \<lparr>shape = [1, 2], elems = [1, 2]\<rparr> coeffs_tensor)
        = Inr out"
    and "item out [0, 0] = (\<Sum>j<2. item \<lparr>shape = [1, 2], elems = [1, 2 :: real]\<rparr> [0, j]
            * item \<lparr>shape = [1, 2, 1], elems = [3, 2 :: real]\<rparr> [0, j, 0])"
    by auto
  moreover from this have "item out [0, 0] = 7"
    by (simp add: item_def eval_nat_numeral)
  ultimately show ?thesis by simp
qed

text \<open>
  C2. For \<open>K\<close> of shape \<open>(batch_count, nn_count, nn_count)\<close> with every \<open>K[b]\<close>
  non-singular, \<open>Kcross\<close> of shape \<open>(batch_count, nn_count)\<close> and targets of shape
  \<open>(batch_count, nn_count, response_count)\<close>, \<open>muygps_compute_solve\<close> returns a tensor
  of shape \<open>(batch_count, response_count)\<close> whose row \<open>b\<close> is
  \<open>Kcross[b] \<cdot> K[b]\<^sup>-\<^sup>1 \<cdot> targets[b]\<close>. It is computed from the solution \<open>X\<close> of
  \<open>K \<cdot> X = targets\<close> that the solver returns; no inverse is formed.
\<close>

theorem compute_solve_rows:
  assumes "shape K = [batch_count, nn_count, nn_count]"
    and "shape Kcross = [batch_count, nn_count]"
    and "shape batch_nn_targets = [batch_count, nn_count, response_count]"
    and "solve K batch_nn_targets = Inr X" and "solves K X batch_nn_targets"
    and "\<forall>b<batch_count. inverse_of Kinv K nn_count b"
  shows "\<exists>out. muygps_compute_solve solve K Kcross batch_nn_targets = Inr out \<and>
           shape out = [batch_count, response_count] \<and> well_shaped out \<and>
           (\<forall>b<batch_count. \<forall>k<response_count.
              item out [b, k] = (\<Sum>j<nn_count. item Kcross [b, j] * item X [b, j, k]) \<and>
              item out [b, k]
                = (\<Sum>i<nn_count. item Kcross [b, i]
                     * (\<Sum>j<nn_count. item Kinv [b, i, j] * item batch_nn_targets [b, j, k])))"
proof -
  from assms(3,5) have shapeX: "shape X = [batch_count, nn_count, response_count]"
    and sol: "\<And>b i k. b < batch_count \<Longrightarrow> i < nn_count \<Longrightarrow> k < response_count \<Longrightarrow>
         (\<Sum>j<nn_count. item K [b, i, j] * item X [b, j, k]) = item batch_nn_targets [b, i, k]"
    by (simp_all add: solves_def)
  have X: "item X [b, i, k] = (\<Sum>j<nn_count. item Kinv [b, i, j] * item batch_nn_targets [b, j, k])"
    if "b < batch_count" "i < nn_count" "k < response_count" for b i k
    using assms(6) that sol
    by (intro inverse_solution [where K = K and x = "\<lambda>j. item X [b, j, k]"]) simp_all
  show ?thesis
    using compute_solve_eq [where solve = solve and K = K, OF assms(2,3,4) shapeX] X by simp
qed

theorem compute_solve_rows_witness:
  "shape \<lparr>shape = [1, 2, 2], elems = [2, 0, 0, 4 :: real]\<rparr> = [1, 2, 2] \<and>
   shape \<lparr>shape = [1, 2], elems = [1, 2 :: real]\<rparr> = [1, 2] \<and>
   shape \<lparr>shape = [1, 2, 1], elems = [6, 8 :: real]\<rparr> = [1, 2, 1] \<and>
   (\<lambda>K B. Inr \<lparr>shape = [1, 2, 1], elems = [3, 2 :: real]\<rparr>)
      \<lparr>shape = [1, 2, 2], elems = [2, 0, 0, 4 :: real]\<rparr> \<lparr>shape = [1, 2, 1], elems = [6, 8 :: real]\<rparr>
     = (Inr \<lparr>shape = [1, 2, 1], elems = [3, 2]\<rparr> :: error + real ndarray) \<and>
   (\<exists>out. muygps_compute_solve (\<lambda>K B. Inr \<lparr>shape = [1, 2, 1], elems = [3, 2]\<rparr>)
            \<lparr>shape = [1, 2, 2], elems = [2, 0, 0, 4]\<rparr> \<lparr>shape = [1, 2], elems = [1, 2]\<rparr>
            \<lparr>shape = [1, 2, 1], elems = [6, 8]\<rparr> = Inr out \<and>
      shape out = [1, 1] \<and> item out [0, 0] = 1 * (1 / 2 * 6 + 0 * 8) + 2 * (0 * 6 + 1 / 4 * 8) \<and>
      item out [0, 0] = 7)"
proof -
  have sol: "solves \<lparr>shape = [1, 2, 2], elems = [2, 0, 0, 4]\<rparr> \<lparr>shape = [1, 2, 1], elems = [3, 2]\<rparr>
      \<lparr>shape = [1, 2, 1], elems = [6, 8]\<rparr>"
    by (simp add: solves_def well_shaped_def item_def eval_nat_numeral All_less_Suc)
  have inv: "\<forall>b<1. inverse_of \<lparr>shape = [1, 2, 2], elems = [1 / 2, 0, 0, 1 / 4]\<rparr>
             \<lparr>shape = [1, 2, 2], elems = [2, 0, 0, 4]\<rparr> 2 b"
    by (simp add: inverse_of_def item_def eval_nat_numeral All_less_Suc)
  from compute_solve_rows [of "\<lparr>shape = [1, 2, 2], elems = [2, 0, 0, 4]\<rparr>" 1 2
      "\<lparr>shape = [1, 2], elems = [1, 2]\<rparr>" "\<lparr>shape = [1, 2, 1], elems = [6, 8]\<rparr>" 1
      "\<lambda>K B. Inr \<lparr>shape = [1, 2, 1], elems = [3, 2]\<rparr>" "\<lparr>shape = [1, 2, 1], elems = [3, 2]\<rparr>"
      "\<lparr>shape = [1, 2, 2], elems = [1 / 2, 0, 0, 1 / 4]\<rparr>", OF _ _ _ _ sol inv]
  obtain out where "muygps_compute_solve (\<lambda>K B. Inr \<lparr>shape = [1, 2, 1], elems = [3, 2]\<rparr>)
            \<lparr>shape = [1, 2, 2], elems = [2, 0, 0, 4]\<rparr> \<lparr>shape = [1, 2], elems = [1, 2]\<rparr>
            \<lparr>shape = [1, 2, 1], elems = [6, 8]\<rparr> = Inr out"
    and "shape out = [1, 1]"
    and "item out [0, 0] = (\<Sum>i<2. item \<lparr>shape = [1, 2], elems = [1, 2 :: real]\<rparr> [0, i]
            * (\<Sum>j<2. item \<lparr>shape = [1, 2, 2], elems = [1 / 2, 0, 0, 1 / 4 :: real]\<rparr> [0, i, j]
                 * item \<lparr>shape = [1, 2, 1], elems = [6, 8 :: real]\<rparr> [0, j, 0]))"
    by auto
  moreover from this have "item out [0, 0] = 7"
    by (simp add: item_def eval_nat_numeral)
  ultimately show ?thesis by simp
qed

lemma joint_quadratic_form:
  "(\<Sum>i<Suc n. \<Sum>j<Suc n. x i * joint_corr K Kcross b i j * x j)
   = x 0 * x 0 + 2 * x 0 * (\<Sum>j<n. item Kcross [b, j] * x (Suc j))
     + (\<Sum>i<n. x (Suc i) * (\<Sum>j<n. item K [b, i, j] * x (Suc j)))"
proof -
  have "(\<Sum>i<Suc n. \<Sum>j<Suc n. x i * joint_corr K Kcross b i j * x j)
        = x 0 * x 0 + (\<Sum>j<n. x 0 * item Kcross [b, j] * x (Suc j))
          + (\<Sum>i<n. x (Suc i) * item Kcross [b, i] * x 0
               + (\<Sum>j<n. x (Suc i) * item K [b, i, j] * x (Suc j)))"
    by (simp add: sum.lessThan_Suc_shift joint_corr_def del: sum.lessThan_Suc)
  also have "\<dots> = x 0 * x 0 + x 0 * (\<Sum>j<n. item Kcross [b, j] * x (Suc j))
          + (x 0 * (\<Sum>i<n. item Kcross [b, i] * x (Suc i))
               + (\<Sum>i<n. x (Suc i) * (\<Sum>j<n. item K [b, i, j] * x (Suc j))))"
    by (simp add: sum.distrib sum_distrib_left mult_ac)
  finally show ?thesis by simp
qed

lemma diagonal_variance_eq:
  assumes "shape Kcross = [b, n]"
    and "solve K (Kcross\<lparr>shape := [b, n, Suc 0]\<rparr>) = Inr X" and "shape X = [b, n, Suc 0]"
  shows "muygps_compute_diagonal_variance rnd solve K Kcross
         = Inr (tabulate [b]
             (\<lambda>idx. rnd (1 - foldl (\<lambda>acc i. rnd (acc + rnd (item Kcross [idx ! 0, i]
                                                 * item X [idx ! 0, i, 0]))) 0 [0..<n])))"
proof -
  have bc: "broadcast2 (\<lambda>x y. rnd (x * y)) Kcross (X\<lparr>shape := [b, n]\<rparr>)
        = Inr (tabulate [b, n] (\<lambda>idx. rnd (item Kcross idx * item X [idx ! 0, idx ! 1, 0])))"
  proof -
    have "tabulate [b, n]
            (\<lambda>idx. rnd (item Kcross (bcast_index [b, n] idx)
                          * item (X\<lparr>shape := [b, n]\<rparr>) (bcast_index [b, n] idx)))
          = tabulate [b, n] (\<lambda>idx. rnd (item Kcross idx * item X [idx ! 0, idx ! 1, 0]))"
      using assms(3) by (intro tabulate_cong) (auto simp: bcast_index_def item_def)
    then show ?thesis
      using assms by (simp add: broadcast2_def broadcastable_def broadcast_shape_def pad_shape_def)
  qed
  have "sum_last_fl rnd (tabulate ([b] @ [n]) (\<lambda>idx. rnd (item Kcross idx * item X [idx ! 0, idx ! 1, 0])))
        = tabulate [b] (\<lambda>idx. foldl (\<lambda>acc i. rnd (acc + rnd (item Kcross [idx ! 0, i]
                                                 * item X [idx ! 0, i, 0]))) 0 [0..<n])"
    unfolding sum_last_fl_tabulate by (rule tabulate_cong) auto
  then show ?thesis
    using assms by (simp add: muygps_compute_diagonal_variance_def reshape_def bind_err_def bc
        map_nd_tabulate)
qed

lemma psd_example:
  "psd (Suc 2) (joint_corr \<lparr>shape = [1, 2, 2], elems = [1, 0, 0, 1]\<rparr>
                  \<lparr>shape = [1, 2], elems = [1 / 2, 1 / 2]\<rparr> 0)"
proof -
  have "0 \<le> x 0 * x 0 + x 0 * x 1 + x 0 * x 2 + x 1 * x 1 + x 2 * x 2" for x :: "nat \<Rightarrow> real"
  proof -
    have "x 0 * x 0 + x 0 * x 1 + x 0 * x 2 + x 1 * x 1 + x 2 * x 2
          = (x 0 / 2 + x 1)\<^sup>2 + (x 0 / 2 + x 2)\<^sup>2 + (x 0)\<^sup>2 / 2"
      by (simp add: power2_eq_square algebra_simps)
    then show ?thesis by simp
  qed
  then show ?thesis
    unfolding psd_def joint_quadratic_form
    by (simp add: item_def eval_nat_numeral algebra_simps)
qed

lemma psd_joint_identity:
  assumes K: "\<forall>i<n. \<forall>j<n. item K [b, i, j] = (if i = j then 1 else 0)"
    and c: "(\<Sum>j<n. (item Kcross [b, j])\<^sup>2) \<le> 1"
  shows "psd (Suc n) (joint_corr K Kcross b)"
  unfolding psd_def joint_quadratic_form
proof
  fix x :: "nat \<Rightarrow> real"
  define t where "t = x 0"
  define y where "y j = x (Suc j)" for j
  define k where "k j = item Kcross [b, j]" for j
  have row: "(\<Sum>j<n. item K [b, i, j] * y j) = y i" if "i < n" for i
  proof -
    have "(\<Sum>j<n. item K [b, i, j] * y j) = (\<Sum>j<n. if j = i then y j else 0)"
      using K that by (intro sum.cong) auto
    also have "\<dots> = y i" using that by simp
    finally show ?thesis .
  qed
  have "(\<Sum>j<n. (y j + k j * t)\<^sup>2)
        = (\<Sum>j<n. y j * y j) + 2 * t * (\<Sum>j<n. k j * y j) + t * t * (\<Sum>j<n. (k j)\<^sup>2)"
    by (simp add: power2_eq_square algebra_simps sum.distrib sum_distrib_left)
  then have "t * t + 2 * t * (\<Sum>j<n. k j * y j) + (\<Sum>i<n. y i * y i)
        = (\<Sum>j<n. (y j + k j * t)\<^sup>2) + t * t * (1 - (\<Sum>j<n. (k j)\<^sup>2))"
    by (simp add: algebra_simps)
  moreover have "0 \<le> (\<Sum>j<n. (y j + k j * t)\<^sup>2)"
    by (intro sum_nonneg) simp
  moreover have "0 \<le> t * t * (1 - (\<Sum>j<n. (k j)\<^sup>2))"
    using c by (simp add: k_def)
  ultimately have "0 \<le> t * t + 2 * t * (\<Sum>j<n. k j * y j) + (\<Sum>i<n. y i * y i)"
    by linarith
  then show "0 \<le> x 0 * x 0 + 2 * x 0 * (\<Sum>j<n. item Kcross [b, j] * x (Suc j))
                 + (\<Sum>i<n. x (Suc i) * (\<Sum>j<n. item K [b, i, j] * x (Suc j)))"
    using row by (simp add: t_def y_def k_def)
qed

lemma tabulate_singleton: "tabulate [Suc 0] g = \<lparr>shape = [Suc 0], elems = [g [0]]\<rparr>"
  by (simp add: tabulate_def)

text \<open>
  C3, as the code has it. For a batch element \<open>b\<close> whose system the solver has solved,
  \<open>muygps_compute_diagonal_variance\<close> returns at \<open>b\<close> the number 1 minus the sum of
  the products \<open>Kcross[b, i] * X[b, i]\<close>, every operation rounded and the result not
  clamped. In exact arithmetic this is \<open>1 - Kcross[b] \<cdot> X[b]\<close>; it lies between 0 and 1
  when the joint correlation matrix of the query point and its neighbours is positive
  semi-definite, and it is \<open>1 - Kcross[b] \<cdot> K[b]\<^sup>-\<^sup>1 \<cdot> Kcross[b]\<close> when \<open>K[b]\<close> has an
  inverse.
\<close>

theorem diagonal_variance_exact_unit_interval:
  assumes "shape K = [batch_count, nn_count, nn_count]"
    and "shape Kcross = [batch_count, nn_count]"
    and "reshape Kcross [batch_count, nn_count, 1] = Inr rhs"
    and "solve K rhs = Inr X" and "shape X = shape rhs"
    and "b < batch_count"
    and "solved_at K X rhs nn_count b"
    and "psd (Suc nn_count) (joint_corr K Kcross b)"
  shows "(\<exists>out. muygps_compute_diagonal_variance rnd solve K Kcross = Inr out \<and>
            shape out = [batch_count] \<and>
            item out [b]
              = rnd (1 - foldl (\<lambda>acc i. rnd (acc + rnd (item Kcross [b, i] * item X [b, i, 0])))
                         0 [0..<nn_count])) \<and>
         (\<exists>out. muygps_compute_diagonal_variance (\<lambda>x. x) solve K Kcross = Inr out \<and>
            shape out = [batch_count] \<and>
            item out [b] = 1 - (\<Sum>i<nn_count. item Kcross [b, i] * item X [b, i, 0]) \<and>
            0 \<le> item out [b] \<and> item out [b] \<le> 1 \<and>
            (inverse_of Kinv K nn_count b \<longrightarrow>
               item out [b]
                 = 1 - (\<Sum>i<nn_count. item Kcross [b, i]
                          * (\<Sum>j<nn_count. item Kinv [b, i, j] * item Kcross [b, j]))))"
proof -
  define a where "a i = item X [b, i, 0]" for i
  define S where "S = (\<Sum>i<nn_count. item Kcross [b, i] * a i)"
  from assms(2,3) have rhs: "rhs = Kcross\<lparr>shape := [batch_count, nn_count, Suc 0]\<rparr>"
    by (simp add: reshape_def)
  have rhs_item: "item rhs [b, i, 0] = item Kcross [b, i]" for i
    using assms(2) by (simp add: rhs item_def)
  from assms(5) have shapeX: "shape X = [batch_count, nn_count, Suc 0]"
    by (simp add: rhs)
  from assms(7) have sol: "\<forall>i<nn_count. (\<Sum>j<nn_count. item K [b, i, j] * a j) = item Kcross [b, i]"
    by (simp add: solved_at_def a_def rhs_item)
  have quad: "(\<Sum>i<nn_count. a i * (\<Sum>j<nn_count. item K [b, i, j] * a j)) = S"
    using sol by (simp add: S_def mult.commute)
  have "0 \<le> (\<Sum>i<Suc nn_count. \<Sum>j<Suc nn_count.
          (case i of 0 \<Rightarrow> 1 | Suc i' \<Rightarrow> - a i') * joint_corr K Kcross b i j
            * (case j of 0 \<Rightarrow> 1 | Suc j' \<Rightarrow> - a j'))"
    using assms(8) unfolding psd_def by blast
  also have "\<dots> = 1 - S"
    unfolding joint_quadratic_form using quad
    by (simp add: S_def sum_negf sum_distrib_left [symmetric])
  finally have lower: "0 \<le> 1 - S" .
  have "0 \<le> (\<Sum>i<Suc nn_count. \<Sum>j<Suc nn_count.
          (case i of 0 \<Rightarrow> 0 | Suc i' \<Rightarrow> a i') * joint_corr K Kcross b i j
            * (case j of 0 \<Rightarrow> 0 | Suc j' \<Rightarrow> a j'))"
    using assms(8) unfolding psd_def by blast
  also have "\<dots> = S"
    unfolding joint_quadratic_form using quad by simp
  finally have upper: "1 - S \<le> 1" by simp
  have inv: "S = (\<Sum>i<nn_count. item Kcross [b, i]
                      * (\<Sum>j<nn_count. item Kinv [b, i, j] * item Kcross [b, j]))"
    if "inverse_of Kinv K nn_count b"
    unfolding S_def using inverse_solution [OF that sol] by (intro sum.cong) simp_all
  note eq = diagonal_variance_eq [where solve = solve and K = K, OF assms(2) assms(4) [unfolded rhs] shapeX]
  have "\<exists>out. muygps_compute_diagonal_variance rnd solve K Kcross = Inr out \<and>
            shape out = [batch_count] \<and>
            item out [b]
              = rnd (1 - foldl (\<lambda>acc i. rnd (acc + rnd (item Kcross [b, i] * item X [b, i, 0])))
                         0 [0..<nn_count])"
    using assms(6) by (simp add: eq)
  moreover have "\<exists>out. muygps_compute_diagonal_variance (\<lambda>x. x) solve K Kcross = Inr out \<and>
            shape out = [batch_count] \<and>
            item out [b] = 1 - (\<Sum>i<nn_count. item Kcross [b, i] * item X [b, i, 0]) \<and>
            0 \<le> item out [b] \<and> item out [b] \<le> 1 \<and>
            (inverse_of Kinv K nn_count b \<longrightarrow>
               item out [b]
                 = 1 - (\<Sum>i<nn_count. item Kcross [b, i]
                          * (\<Sum>j<nn_count. item Kinv [b, i, j] * item Kcross [b, j])))"
    using assms(6) lower upper inv
    by (simp add: eq foldl_plus_sum S_def [symmetric] a_def [symmetric])
  ultimately show ?thesis by blast
qed

theorem diagonal_variance_exact_unit_interval_witness:
  "shape \<lparr>shape = [1, 2, 2], elems = [1, 0, 0, 1 :: real]\<rparr> = [1, 2, 2] \<and>
   shape \<lparr>shape = [1, 2], elems = [1 / 2, 1 / 2 :: real]\<rparr> = [1, 2] \<and>
   reshape \<lparr>shape = [1, 2], elems = [1 / 2, 1 / 2 :: real]\<rparr> [1, 2, 1]
     = Inr \<lparr>shape = [1, 2, 1], elems = [1 / 2, 1 / 2]\<rparr> \<and>
   (\<lambda>K B. Inr B) \<lparr>shape = [1, 2, 2], elems = [1, 0, 0, 1 :: real]\<rparr>
       \<lparr>shape = [1, 2, 1], elems = [1 / 2, 1 / 2 :: real]\<rparr>
     = (Inr \<lparr>shape = [1, 2, 1], elems = [1 / 2, 1 / 2]\<rparr> :: error + real ndarray) \<and>
   (0 :: nat) < 1 \<and>
   (\<exists>out. muygps_compute_diagonal_variance round_double (\<lambda>K B. Inr B)
            \<lparr>shape = [1, 2, 2], elems = [1, 0, 0, 1]\<rparr> \<lparr>shape = [1, 2], elems = [1 / 2, 1 / 2]\<rparr> = Inr out \<and>
      shape out = [1] \<and> item out [0] = 1 / 2) \<and>
   (\<exists>out. muygps_compute_diagonal_variance (\<lambda>x. x) (\<lambda>K B. Inr B)
            \<lparr>shape = [1, 2, 2], elems = [1, 0, 0, 1]\<rparr> \<lparr>shape = [1, 2], elems = [1 / 2, 1 / 2]\<rparr> = Inr out \<and>
      shape out = [1] \<and> item out [0] = 1 / 2 \<and> 0 \<le> item out [0] \<and> item out [0] \<le> 1)"
proof -
  let ?K = "\<lparr>shape = [1, 2, 2], elems = [1, 0, 0, 1 :: real]\<rparr>"
  let ?Kc = "\<lparr>shape = [1, 2], elems = [1 / 2, 1 / 2 :: real]\<rparr>"
  let ?rhs = "\<lparr>shape = [1, 2, 1], elems = [1 / 2, 1 / 2 :: real]\<rparr>"
  have rs: "reshape ?Kc [1, 2, 1] = Inr ?rhs"
    by (simp add: reshape_def)
  have sol: "solved_at ?K ?rhs ?rhs 2 0"
    by (simp add: solved_at_def item_def eval_nat_numeral All_less_Suc)
  have inv: "inverse_of ?K ?K 2 0"
    by (simp add: inverse_of_def item_def eval_nat_numeral All_less_Suc)
  have upt: "[0..<2] = [0, 1]"
    by (simp add: upt_rec)
  from diagonal_variance_exact_unit_interval [of ?K 1 2 ?Kc ?rhs "\<lambda>K B. Inr B" ?rhs 0 round_double ?K,
      OF _ _ rs _ _ _ sol psd_example]
  obtain out out' where "muygps_compute_diagonal_variance round_double (\<lambda>K B. Inr B) ?K ?Kc = Inr out"
    and "shape out = [1]"
    and v: "item out [0] = round_double (1 - foldl (\<lambda>acc i. round_double (acc + round_double (item ?Kc [0, i] * item ?rhs [0, i, 0]))) 0 [0..<2])"
    and "muygps_compute_diagonal_variance (\<lambda>x. x) (\<lambda>K B. Inr B) ?K ?Kc = Inr out'"
    and "shape out' = [1]" and "0 \<le> item out' [0]" and "item out' [0] \<le> 1"
    and v': "inverse_of ?K ?K 2 0 \<longrightarrow> item out' [0] = 1 - (\<Sum>i<2. item ?Kc [0, i]
           * (\<Sum>j<2. item ?K [0, i, j] * item ?Kc [0, j]))"
    by auto
  moreover have "item out [0] = 1 / 2"
    unfolding v by (simp add: upt item_def round_double_quarters)
  moreover have "item out' [0] = 1 / 2"
    using v' inv by (simp add: item_def eval_nat_numeral)
  ultimately show ?thesis
    using rs by simp
qed

text \<open>
  C3 as it is worded fails in double precision. \<open>K[0]\<close> is the identity matrix of size
  4, which the solver solves exactly, and the squares of the four entries of
  \<open>Kcross[0]\<close> add up to less than 1, so the joint correlation matrix is positive
  semi-definite. The rounded sum of the squares is \<open>1 + 2 ^ - 52\<close>, and the variance
  returned is \<open>- 2 ^ - 52\<close>.
\<close>

theorem diagonal_variance_negative_counterexample:
  "psd (Suc 4)
     (joint_corr \<lparr>shape = [1, 4, 4], elems = [1, 0, 0, 0, 0, 1, 0, 0, 0, 0, 1, 0, 0, 0, 0, 1]\<rparr>
        \<lparr>shape = [1, 4], elems = [6890383664468839 / 2 ^ 53, 804320334376467 / 2 ^ 54,
                                  2251799813684237 / 2 ^ 58, 5786671479425599 / 2 ^ 53]\<rparr> 0) \<and>
   muygps_compute_diagonal_variance round_double (\<lambda>K B. Inr B)
     \<lparr>shape = [1, 4, 4], elems = [1, 0, 0, 0, 0, 1, 0, 0, 0, 0, 1, 0, 0, 0, 0, 1]\<rparr>
     \<lparr>shape = [1, 4], elems = [6890383664468839 / 2 ^ 53, 804320334376467 / 2 ^ 54,
                               2251799813684237 / 2 ^ 58, 5786671479425599 / 2 ^ 53]\<rparr>
     = Inr \<lparr>shape = [1], elems = [- 1 / 2 ^ 52]\<rparr>"
proof -
  define c0 :: real where "c0 = 6890383664468839 / 2 ^ 53"
  define c1 :: real where "c1 = 804320334376467 / 2 ^ 54"
  define c2 :: real where "c2 = 2251799813684237 / 2 ^ 58"
  define c3 :: real where "c3 = 5786671479425599 / 2 ^ 53"
  define r0 :: real where "r0 = 5271048824482153 / 2 ^ 53"
  define r1 :: real where "r1 = 1149180662259169 / 2 ^ 59"
  define r2 :: real where "r2 = 1125899906841613 / 2 ^ 64"
  define r3 :: real where "r3 = 7435289453194305 / 2 ^ 54"
  define s1 :: real where "s1 = 5289004772329953 / 2 ^ 53"
  define s2 :: real where "s2 = 5289554528143841 / 2 ^ 53"
  define s3 :: real where "s3 = 4503599627370497 / 2 ^ 52"
  have p0: "round_double (c0 * c0) = r0"
    unfolding c0_def r0_def using round_double_near [of "6890383664468839 / 2 ^ 53 * (6890383664468839 / 2 ^ 53)" 53 5271048824482153] by simp
  have p1: "round_double (c1 * c1) = r1"
    unfolding c1_def r1_def using round_double_near [of "804320334376467 / 2 ^ 54 * (804320334376467 / 2 ^ 54)" 61 4596722649036676] by simp
  have p2: "round_double (c2 * c2) = r2"
    unfolding c2_def r2_def using round_double_near [of "2251799813684237 / 2 ^ 58 * (2251799813684237 / 2 ^ 58)" 67 9007199254732904] by simp
  have p3: "round_double (c3 * c3) = r3"
    unfolding c3_def r3_def using round_double_near [of "5786671479425599 / 2 ^ 53 * (5786671479425599 / 2 ^ 53)" 54 7435289453194305] by simp
  have a0: "round_double r0 = r0"
    unfolding r0_def using round_double_near [of "5271048824482153 / 2 ^ 53" 53 5271048824482153] by simp
  have a1: "round_double (r0 + r1) = s1"
    unfolding r0_def r1_def s1_def using round_double_near [of "5271048824482153 / 2 ^ 53 + 1149180662259169 / 2 ^ 59" 53 5289004772329953] by simp
  have a2: "round_double (s1 + r2) = s2"
    unfolding s1_def r2_def s2_def using round_double_near [of "5289004772329953 / 2 ^ 53 + 1125899906841613 / 2 ^ 64" 53 5289554528143841] by simp
  have a3: "round_double (s2 + r3) = s3"
    unfolding s2_def r3_def s3_def using round_double_near [of "5289554528143841 / 2 ^ 53 + 7435289453194305 / 2 ^ 54" 52 4503599627370497] by simp
  have fin: "round_double (1 - s3) = - 1 / 2 ^ 52"
    unfolding s3_def using round_double_near [of "1 - (4503599627370497 / 2 ^ 52)" 104 "- 4503599627370496"] by simp
  let ?K = "\<lparr>shape = [1, 4, 4], elems = [1, 0, 0, 0, 0, 1, 0, 0, 0, 0, 1, 0, 0, 0, 0, 1 :: real]\<rparr>"
  let ?Kc = "\<lparr>shape = [1, 4], elems = [c0, c1, c2, c3]\<rparr>"
  have Kc: "\<lparr>shape = [1, 4], elems = [6890383664468839 / 2 ^ 53, 804320334376467 / 2 ^ 54,
                               2251799813684237 / 2 ^ 58, 5786671479425599 / 2 ^ 53]\<rparr> = ?Kc"
    by (simp only: c0_def c1_def c2_def c3_def)
  have upt: "[0..<4] = [0, 1, 2, 3]"
    by (simp add: upt_rec)
  have ident: "\<forall>i<4. \<forall>j<4. item ?K [0, i, j] = (if i = j then 1 else 0)"
    by (simp add: item_def eval_nat_numeral All_less_Suc)
  have "(\<Sum>j<4. (item ?Kc [0, j])\<^sup>2) \<le> 1"
    by (simp add: item_def eval_nat_numeral c0_def c1_def c2_def c3_def power2_eq_square)
  with ident have valid: "psd (Suc 4) (joint_corr ?K ?Kc 0)"
    by (rule psd_joint_identity)
  have "muygps_compute_diagonal_variance round_double (\<lambda>K B. Inr B) ?K ?Kc
        = Inr (tabulate [1]
             (\<lambda>idx. round_double (1 - foldl (\<lambda>acc i. round_double (acc + round_double (item ?Kc [idx ! 0, i]
                   * item (?Kc\<lparr>shape := [1, 4, Suc 0]\<rparr>) [idx ! 0, i, 0]))) 0 [0..<4])))"
    by (rule diagonal_variance_eq) simp_all
  also have "\<dots> = Inr \<lparr>shape = [1], elems = [- 1 / 2 ^ 52]\<rparr>"
    by (simp add: tabulate_singleton upt item_def p0 p1 p2 p3 a0 a1 a2 a3 fin)
  finally show ?thesis
    unfolding Kc using valid by simp
qed

end
